theory Spec2Isabelle
  imports Complex_Main "HOL-Library.Sublist"
begin

section \<open>Strings\<close>

text \<open>
  Python text is modelled as \<^typ>\<open>string\<close>, a list of bytes. The character classes of
  the source are ASCII classes; a byte of a non-ASCII code point is neither a lower-case
  letter, a digit nor white space. Lower-casing acts on the ASCII letters and leaves every
  other byte as it is; the two code points whose lower-case form in Python holds an ASCII
  letter (U+0130 and U+212A) are outside the model.
\<close>

definition lower_or_digit :: "char \<Rightarrow> bool" where
  "lower_or_digit c = (c \<in> set ''abcdefghijklmnopqrstuvwxyz0123456789'')"

definition py_space :: "char \<Rightarrow> bool" where
  "py_space c = (of_char c \<in> set [9, 10, 11, 12, 13, 28, 29, 30, 31, 32 :: nat])"

definition lower_char :: "char \<Rightarrow> char" where
  "lower_char c =
     (case map_of (zip ''ABCDEFGHIJKLMNOPQRSTUVWXYZ'' ''abcdefghijklmnopqrstuvwxyz'') c of
        Some d \<Rightarrow> d
      | None \<Rightarrow> c)"

definition py_lower :: "string \<Rightarrow> string" where
  "py_lower s = map lower_char s"

definition lstrip_chars :: "(char \<Rightarrow> bool) \<Rightarrow> string \<Rightarrow> string" where
  "lstrip_chars p s = dropWhile p s"

definition rstrip_chars :: "(char \<Rightarrow> bool) \<Rightarrow> string \<Rightarrow> string" where
  "rstrip_chars p s = rev (dropWhile p (rev s))"

definition strip_chars :: "(char \<Rightarrow> bool) \<Rightarrow> string \<Rightarrow> string" where
  "strip_chars p s = rstrip_chars p (lstrip_chars p s)"

definition py_strip :: "string \<Rightarrow> string" where
  "py_strip s = strip_chars py_space s"

text \<open>
  \<open>re.sub(r"[C]+", r, text)\<close> for a character class \<open>C\<close>: every maximal run of
  characters of the class, found from the left, is replaced by \<open>r\<close>.
\<close>

function re_sub_runs :: "(char \<Rightarrow> bool) \<Rightarrow> string \<Rightarrow> string \<Rightarrow> string" where
  "re_sub_runs p r [] = []"
| "re_sub_runs p r (c # cs) =
     (if p c then r @ re_sub_runs p r (dropWhile p cs) else c # re_sub_runs p r cs)"
  by pat_completeness auto
termination
  by (relation "measure (\<lambda>(p, r, s). length s)")
     (auto simp: le_imp_less_Suc length_dropWhile_le)

text \<open>
  The leftmost occurrence of a separator: the text before it and the text after it.
  \<open>sep in s\<close> holds when there is one; \<open>s.split(sep, 1)\<close> is \<open>[before, after]\<close> then and
  \<open>[s]\<close> otherwise.
\<close>

fun find_sub :: "string \<Rightarrow> string \<Rightarrow> (string \<times> string) option" where
  "find_sub sep [] = (if sep = [] then Some ([], []) else None)"
| "find_sub sep (c # cs) =
     (if prefix sep (c # cs) then Some ([], drop (length sep) (c # cs))
      else (case find_sub sep cs of
              None \<Rightarrow> None
            | Some (before, after) \<Rightarrow> Some (c # before, after)))"

definition contains :: "string \<Rightarrow> string \<Rightarrow> bool" where
  "contains needle hay = (find_sub needle hay \<noteq> None)"

definition split_head :: "string \<Rightarrow> string \<Rightarrow> string" where
  \<comment> \<open>\<open>s.split(sep, 1)[0]\<close>\<close>
  "split_head sep s = (case find_sub sep s of None \<Rightarrow> s | Some (before, after) \<Rightarrow> before)"

text \<open>Decimal digits of a number, as \<open>str\<close> prints an integer.\<close>

fun str_nat :: "nat \<Rightarrow> string" where
  "str_nat n =
     (if n < 10 then [''0123456789'' ! n]
      else str_nat (n div 10) @ [''0123456789'' ! (n mod 10)])"

declare str_nat.simps [simp del]

definition str_int :: "int \<Rightarrow> string" where
  "str_int i = (if i < 0 then CHR ''-'' # str_nat (nat (- i)) else str_nat (nat i))"

definition join_lines :: "string list \<Rightarrow> string" where
  \<comment> \<open>\<open>"\n".join(lines)\<close>\<close>
  "join_lines ls = (case ls of [] \<Rightarrow> [] | l # rest \<Rightarrow> l @ concat (map (\<lambda>x. CHR 0x0A # x) rest))"

section \<open>Regular expressions over character classes\<close>

datatype rexp =
    RNone
  | REps
  | RClass "char \<Rightarrow> bool"
  | RSeq rexp rexp
  | RAlt rexp rexp
  | RStar rexp

definition RPlus :: "rexp \<Rightarrow> rexp" where
  "RPlus r = RSeq r (RStar r)"

fun nullable :: "rexp \<Rightarrow> bool" where
  "nullable RNone = False"
| "nullable REps = True"
| "nullable (RClass p) = False"
| "nullable (RSeq r s) = (nullable r \<and> nullable s)"
| "nullable (RAlt r s) = (nullable r \<or> nullable s)"
| "nullable (RStar r) = True"

fun deriv :: "char \<Rightarrow> rexp \<Rightarrow> rexp" where
  "deriv c RNone = RNone"
| "deriv c REps = RNone"
| "deriv c (RClass p) = (if p c then REps else RNone)"
| "deriv c (RSeq r s) =
     (if nullable r then RAlt (RSeq (deriv c r) s) (deriv c s) else RSeq (deriv c r) s)"
| "deriv c (RAlt r s) = RAlt (deriv c r) (deriv c s)"
| "deriv c (RStar r) = RSeq (deriv c r) (RStar r)"

text \<open>\<open>re.fullmatch\<close>: the whole string is a word of the expression.\<close>

fun fullmatch :: "rexp \<Rightarrow> string \<Rightarrow> bool" where
  "fullmatch r [] = nullable r"
| "fullmatch r (c # cs) = fullmatch (deriv c r) cs"

text \<open>The pattern \<open>^[a-z0-9]+(-[a-z0-9]+)*$\<close>.\<close>

definition slug_re :: rexp where
  "slug_re =
     RSeq (RPlus (RClass lower_or_digit))
          (RStar (RSeq (RClass (\<lambda>c. c = CHR ''-'')) (RPlus (RClass lower_or_digit))))"

section \<open>Slug generator (export\_json.slugify)\<close>

definition slugify :: "string \<Rightarrow> string" where
  "slugify text =
     (let text1 = py_strip (py_lower text);
          text2 = re_sub_runs (\<lambda>c. \<not> lower_or_digit c) ''-'' text1;
          text3 = strip_chars (\<lambda>c. c = CHR ''-'') (re_sub_runs (\<lambda>c. c = CHR ''-'') ''-'' text2)
      in if text3 = [] then ''record'' else text3)"

section \<open>JSON values and Python objects\<close>

text \<open>
  What \<open>json.load\<close> returns: \<open>None\<close>, booleans, integers, floats, text, lists and
  dictionaries. A dictionary is an association list in insertion order; a lookup takes the
  first pair with the key.
\<close>

datatype json =
    JNull
  | JBool bool
  | JInt int
  | JFloat rat
  | JStr string
  | JArr "json list"
  | JObj "(string \<times> json) list"

type_synonym dict = "(string \<times> json) list"

datatype py_error =
    TypeError | AttributeError | KeyError | IndexError
  | HTTPError | RequestException | OSError | UnicodeEncodeError | JSONDecodeError

fun truthy :: "json \<Rightarrow> bool" where
  "truthy JNull = False"
| "truthy (JBool b) = b"
| "truthy (JInt i) = (i \<noteq> 0)"
| "truthy (JFloat r) = (r \<noteq> 0)"
| "truthy (JStr s) = (s \<noteq> [])"
| "truthy (JArr xs) = (xs \<noteq> [])"
| "truthy (JObj d) = (d \<noteq> [])"

definition py_or :: "json \<Rightarrow> json \<Rightarrow> json" where
  \<comment> \<open>\<open>a or b\<close>\<close>
  "py_or a b = (if truthy a then a else b)"

definition get :: "dict \<Rightarrow> string \<Rightarrow> json" where
  \<comment> \<open>\<open>d.get(k)\<close>: \<open>None\<close> for a missing key\<close>
  "get d k = (case map_of d k of None \<Rightarrow> JNull | Some v \<Rightarrow> v)"

definition get_default :: "dict \<Rightarrow> string \<Rightarrow> json \<Rightarrow> json" where
  \<comment> \<open>\<open>d.get(k, default)\<close>\<close>
  "get_default d k dflt = (case map_of d k of None \<Rightarrow> dflt | Some v \<Rightarrow> v)"

fun dict_set :: "dict \<Rightarrow> string \<Rightarrow> json \<Rightarrow> dict" where
  \<comment> \<open>\<open>d[k] = v\<close>: a new key goes last, a known key keeps its place\<close>
  "dict_set [] k v = [(k, v)]"
| "dict_set ((k', v') # d) k v = (if k' = k then (k, v) # d else (k', v') # dict_set d k v)"

definition py_in :: "string \<Rightarrow> json \<Rightarrow> py_error + bool" where
  \<comment> \<open>\<open>needle in v\<close> for a text needle: substring of a text, element of a list, key of a
      dictionary; any other value is not iterable\<close>
  "py_in needle v =
     (case v of
        JStr s \<Rightarrow> Inr (contains needle s)
      | JArr xs \<Rightarrow> Inr (JStr needle \<in> set xs)
      | JObj d \<Rightarrow> Inr (needle \<in> set (map fst d))
      | _ \<Rightarrow> Inl TypeError)"

text \<open>
  \<open>str(v)\<close>. The printed form of a float, a list or a dictionary is Python's own; it is the
  parameter \<open>repr\<close>.
\<close>

definition py_str :: "(json \<Rightarrow> string) \<Rightarrow> json \<Rightarrow> string" where
  "py_str repr v =
     (case v of
        JStr s \<Rightarrow> s
      | JInt i \<Rightarrow> str_int i
      | JBool b \<Rightarrow> (if b then ''True'' else ''False'')
      | JNull \<Rightarrow> ''None''
      | _ \<Rightarrow> repr v)"

section \<open>Projector (export\_json.py)\<close>

definition BIOECOOCEAN_FUNDING :: json where
  "BIOECOOCEAN_FUNDING =
     JObj [(''@type'', JStr ''MonetaryGrant''),
           (''name'', JStr ''BioEcoOcean (Horizon Europe)''),
           (''identifier'', JStr ''101136748''),
           (''funder'', JObj [(''@type'', JStr ''FundingAgency''),
                              (''name'', JStr ''European Commission''),
                              (''legalName'', JStr ''European Commission''),
                              (''url'', JStr ''https://commission.europa.eu/index_en'')])]"

definition LICENSE_MAP :: "(string \<times> string \<times> string) list" where
  "LICENSE_MAP =
     [(''cc-by-4.0'',
       (''CC-BY: Creative Commons Attribution 4.0'',
        ''https://creativecommons.org/licenses/by/4.0/''))]"

definition load_graph :: "json \<Rightarrow> json list" where
  \<comment> \<open>on the parsed content of the catalogue file\<close>
  "load_graph data =
     (case data of
        JObj d \<Rightarrow> (case get d ''@graph'' of JArr graph \<Rightarrow> graph | _ \<Rightarrow> [])
      | JArr records \<Rightarrow> records
      | _ \<Rightarrow> [])"

definition zenodo_marker :: string where
  "zenodo_marker = ''zenodo.org/record/''"

definition source_url :: "dict \<Rightarrow> json" where
  \<comment> \<open>\<open>entry.get("url") or entry.get("@id") or ""\<close>\<close>
  "source_url entry = py_or (get entry ''url'') (py_or (get entry ''@id'') (JStr []))"

definition parse_zenodo_rec_id :: "dict \<Rightarrow> py_error + string option" where
  "parse_zenodo_rec_id entry =
     (let url = source_url entry in
      case py_in zenodo_marker url of
        Inl e \<Rightarrow> Inl e
      | Inr False \<Rightarrow> Inr None
      | Inr True \<Rightarrow>
          (case url of
             JStr u \<Rightarrow>
               (case find_sub zenodo_marker u of
                  None \<Rightarrow> Inl IndexError
                | Some (before, tail) \<Rightarrow>
                    (let rec_id = split_head ''?'' (split_head ''/'' tail)
                     in Inr (if rec_id = [] then None else Some rec_id)))
           | _ \<Rightarrow> Inl AttributeError))"

definition str_truthy :: "string option \<Rightarrow> bool" where
  \<comment> \<open>truth value of a \<open>str | None\<close>\<close>
  "str_truthy v = (case v of None \<Rightarrow> False | Some s \<Rightarrow> s \<noteq> [])"

definition extract_doi :: "json \<Rightarrow> string option \<times> string option" where
  "extract_doi identifier =
     (let (doi_val, doi_url) =
        (case identifier of
           JStr s \<Rightarrow>
             (case find_sub ''doi.org/'' s of
                Some (before, tail) \<Rightarrow> (Some tail, Some s)
              | None \<Rightarrow> (Some s, None))
         | JObj d \<Rightarrow>
             ((case get d ''value'' of JStr v \<Rightarrow> Some v | _ \<Rightarrow> None),
              (case get d ''url'' of
                 JStr u \<Rightarrow> (if contains ''doi.org/'' u then Some u else None)
               | _ \<Rightarrow> None))
         | _ \<Rightarrow> (None, None))
      in case doi_val of
           Some v \<Rightarrow>
             (if v \<noteq> [] \<and> \<not> str_truthy doi_url then (doi_val, Some (''https://doi.org/'' @ v))
              else (doi_val, doi_url))
         | None \<Rightarrow> (doi_val, doi_url))"

definition identifier_block :: "json \<Rightarrow> json \<Rightarrow> dict option" where
  \<comment> \<open>from the record's \<open>identifier\<close> field and its url\<close>
  "identifier_block identifier url =
     (case extract_doi identifier of (doi_val, doi_url) \<Rightarrow>
        if str_truthy doi_val then
          (case doi_val of
             Some v \<Rightarrow>
               Some [(''@type'', JStr ''PropertyValue''),
                     (''description'', JStr ''DOI''),
                     (''propertyID'', JStr ''https://registry.identifiers.org/registry/doi''),
                     (''url'', JStr (case doi_url of
                                       Some u \<Rightarrow> (if u \<noteq> [] then u else ''https://doi.org/'' @ v)
                                     | None \<Rightarrow> ''https://doi.org/'' @ v)),
                     (''value'', JStr v)]
           | None \<Rightarrow> None)
        else if truthy url then
          Some [(''@type'', JStr ''PropertyValue''),
                (''description'', JStr ''Record URL''),
                (''propertyID'', JStr ''url''),
                (''url'', url),
                (''value'', url)]
        else None)"

definition license_block :: "json \<Rightarrow> (string option \<times> string option)" where
  \<comment> \<open>\<open>(lic_label, lic_url)\<close>\<close>
  "license_block lic =
     (case lic of
        JStr l \<Rightarrow>
          (let key = py_lower l in
           case map_of LICENSE_MAP key of
             Some (label, url) \<Rightarrow> (Some label, Some url)
           | None \<Rightarrow>
               (if contains ''creativecommons.org/licenses/by/4.0'' key then
                  (case map_of LICENSE_MAP ''cc-by-4.0'' of
                     Some (label, url) \<Rightarrow> (Some label, Some url)
                   | None \<Rightarrow> (None, None))
                else (None, None)))
      | _ \<Rightarrow> (None, None))"

definition keyword_terms :: "json \<Rightarrow> json list option" where
  \<comment> \<open>\<open>None\<close> when \<open>keywords\<close> is not a list\<close>
  "keyword_terms kws0 =
     (case py_or kws0 (JArr []) of
        JArr kws \<Rightarrow>
          Some (concat (map (\<lambda>kw. case kw of
                                     JStr k \<Rightarrow> [JObj [(''@type'', JStr ''DefinedTerm''), (''name'', JStr k)]]
                                   | _ \<Rightarrow> []) kws))
      | _ \<Rightarrow> None)"

text \<open>
  \<open>dataset_to_project(entry, base_url, rel_path)\<close>, block by block. The path is given by
  the text \<open>rel_path.as_posix()\<close>.
\<close>

definition project_name :: "dict \<Rightarrow> string option \<Rightarrow> json" where
  "project_name entry rec_id =
     py_or (get entry ''name'')
       (JStr (case rec_id of Some r \<Rightarrow> ''Zenodo record '' @ r | None \<Rightarrow> ''Record''))"

definition project_description :: "dict \<Rightarrow> json" where
  "project_description entry =
     (let desc0 = get_default entry ''description'' (JStr []);
          desc = (case desc0 of
                    JObj d \<Rightarrow>
                      (if ''@value'' \<in> set (map fst d) then py_or (get d ''@value'') (JStr [])
                       else desc0)
                  | _ \<Rightarrow> desc0)
      in py_or desc (JStr []))"

definition with_identifier :: "dict \<Rightarrow> json \<Rightarrow> json \<Rightarrow> dict" where
  \<comment> \<open>\<open>if identifier_block: project["identifier"] = identifier_block\<close>\<close>
  "with_identifier project identifier url =
     (case identifier_block identifier url of
        Some block \<Rightarrow> dict_set project ''identifier'' (JObj block)
      | None \<Rightarrow> project)"

definition with_license :: "dict \<Rightarrow> json \<Rightarrow> dict" where
  \<comment> \<open>publishingPrinciples from license (when mappable)\<close>
  "with_license project lic =
     (case license_block lic of
        (lic_label, lic_url) \<Rightarrow>
          (case lic_url of
             Some lu \<Rightarrow>
               (if lu \<noteq> [] then
                  dict_set project ''publishingPrinciples''
                    (JArr [JObj [(''@type'', JStr ''CreativeWork''),
                                 (''name'', JStr (case lic_label of
                                                    Some l \<Rightarrow>
                                                      (if l \<noteq> [] then l
                                                       else ''Creative Commons Attribution 4.0'')
                                                  | None \<Rightarrow> ''Creative Commons Attribution 4.0'')),
                                 (''url'', JStr lu)]])
                else project)
           | None \<Rightarrow> project))"

definition with_keywords :: "dict \<Rightarrow> json \<Rightarrow> dict" where
  \<comment> \<open>keywords -> simple DefinedTerm entries\<close>
  "with_keywords project kws =
     (case keyword_terms kws of
        Some terms \<Rightarrow> (if terms \<noteq> [] then dict_set project ''keywords'' (JArr terms) else project)
      | None \<Rightarrow> project)"

definition with_funding :: "dict \<Rightarrow> json \<Rightarrow> py_error + dict" where
  \<comment> \<open>\<open>if url and "zenodo.org/record/" in url: project["funding"] = [BIOECOOCEAN_FUNDING]\<close>\<close>
  "with_funding project url =
     (case (if truthy url then py_in zenodo_marker url else Inr False) of
        Inl e \<Rightarrow> Inl e
      | Inr hit \<Rightarrow>
          Inr (if hit then dict_set project ''funding'' (JArr [BIOECOOCEAN_FUNDING]) else project))"

definition with_id :: "dict \<Rightarrow> string option \<Rightarrow> string \<Rightarrow> dict" where
  \<comment> \<open>\<open>if base_url: project["@id"] = base_url.rstrip("/") + "/" + rel_path.as_posix().lstrip("./")\<close>\<close>
  "with_id project base_url rel_posix =
     (case base_url of
        Some b \<Rightarrow>
          (if b \<noteq> [] then
             (let rel_str = lstrip_chars (\<lambda>c. c \<in> set ''./'') rel_posix
              in dict_set project ''@id'' (JStr (rstrip_chars (\<lambda>c. c = CHR ''/'') b @ ''/'' @ rel_str)))
           else project)
      | None \<Rightarrow> project)"

definition dataset_to_project :: "dict \<Rightarrow> string option \<Rightarrow> string \<Rightarrow> py_error + dict" where
  "dataset_to_project entry base_url rel_posix =
     (case parse_zenodo_rec_id entry of
        Inl e \<Rightarrow> Inl e
      | Inr rec_id \<Rightarrow>
          (let url = source_url entry;
               project0 = [(''@context'', JStr ''https://schema.org/''),
                           (''@type'', JStr ''Project''),
                           (''name'', project_name entry rec_id),
                           (''description'', project_description entry),
                           (''url'', url)];
               project1 = with_identifier project0 (get entry ''identifier'') url;
               project2 = with_license project1 (get entry ''license'');
               project3 = with_keywords project2 (get entry ''keywords'')
           in case with_funding project3 url of
                Inl e \<Rightarrow> Inl e
              | Inr project4 \<Rightarrow> Inr (with_id project4 base_url rel_posix)))"

subsection \<open>Sitemap\<close>

definition replace_char :: "char \<Rightarrow> string \<Rightarrow> string \<Rightarrow> string" where
  \<comment> \<open>\<open>s.replace(c, r)\<close> for a single character \<open>c\<close>\<close>
  "replace_char c r s = concat (map (\<lambda>x. if x = c then r else [x]) s)"

definition html_escape :: "string \<Rightarrow> string" where
  \<comment> \<open>\<open>html.escape(s, quote=True)\<close>: the ampersand first\<close>
  "html_escape s =
     replace_char (CHR 0x27) ''&#x27;''
       (replace_char (CHR 0x22) ''&quot;''
          (replace_char (CHR ''>'') ''&gt;''
             (replace_char (CHR ''<'') ''&lt;''
                (replace_char (CHR ''&'') ''&amp;'' s))))"

fun sitemap_lines :: "string list \<Rightarrow> string list \<Rightarrow> string list" where
  \<comment> \<open>the loop over \<open>id_list\<close>, appending to \<open>lines\<close>\<close>
  "sitemap_lines lines [] = lines"
| "sitemap_lines lines (loc # rest) =
     sitemap_lines (lines @ [''  <url><loc>'' @ html_escape loc @ ''</loc></url>'']) rest"

definition build_sitemap_xml :: "string list \<Rightarrow> string" where
  "build_sitemap_xml ids =
     (let id_list = filter (\<lambda>i. i \<noteq> []) ids;
          lines0 = [''<?xml version='' @ [CHR 0x22] @ ''1.0'' @ [CHR 0x22] @ '' encoding=''
                      @ [CHR 0x22] @ ''UTF-8'' @ [CHR 0x22] @ ''?>'',
                    ''<urlset xmlns='' @ [CHR 0x22]
                      @ ''http://www.sitemaps.org/schemas/sitemap/0.9'' @ [CHR 0x22] @ ''>''];
          lines1 = sitemap_lines lines0 id_list
      in join_lines (lines1 @ [''</urlset>'']))"

subsection \<open>The command (export\_json.main)\<close>

text \<open>
  The run works on a file store, a map from paths to what was written there. What the
  file system does is given by the environment: reading and parsing the input file gives
  the parsed content or raises (\<open>read_input\<close>), and creating the output directory
  (\<open>make_dir\<close>), creating the parent directory of a path (\<open>make_parent\<close>) or writing a file
  (\<open>write_file\<close>) succeeds or raises: a file name that is too long, text that the encoding
  cannot write, a missing permission. Two more things come from the environment: \<open>repr\<close>,
  Python's printed form of a value that is not text, and \<open>rel_for\<close>, which gives for a file
  name the text of \<open>out_path.resolve().relative_to(cwd)\<close>, or of \<open>Path(filename)\<close> when
  the output directory is not below the working directory. An exception that nothing
  catches ends the run; it is the \<open>Inl\<close> result.
\<close>

datatype content = JsonFile dict | TextFile string

record args =
  arg_input :: string
  arg_out_dir :: string
  arg_base_url :: "string option"
  arg_sitemap :: "string option"

record file_ops =
  read_input :: "string \<Rightarrow> py_error + json"
  make_dir :: "string \<Rightarrow> py_error option"
  make_parent :: "string \<Rightarrow> py_error option"
  write_file :: "string \<Rightarrow> content \<Rightarrow> py_error option"

record run_state =
  st_files :: "string \<rightharpoonup> content"
  st_ids :: "string list"
  st_stderr :: "string list"

definition path_join :: "string \<Rightarrow> string \<Rightarrow> string" where
  \<comment> \<open>\<open>out_dir / filename\<close>, as a key of the file store\<close>
  "path_join dir name = dir @ ''/'' @ name"

definition output_filename :: "(json \<Rightarrow> string) \<Rightarrow> nat \<Rightarrow> dict \<Rightarrow> py_error + string" where
  "output_filename repr idx entry =
     (case parse_zenodo_rec_id entry of
        Inl e \<Rightarrow> Inl e
      | Inr rec_id \<Rightarrow>
          (let base_name = py_or (get entry ''name'')
                             (JStr (case rec_id of Some r \<Rightarrow> r | None \<Rightarrow> ''record-'' @ str_nat idx));
               slug = slugify (py_str repr base_name)
           in Inr (case rec_id of
                     Some r \<Rightarrow>
                       (if \<not> contains r slug then slug @ ''-'' @ r @ ''.json''
                        else slug @ ''.json'')
                   | None \<Rightarrow> slug @ ''.json'')))"

definition export_one ::
  "(json \<Rightarrow> string) \<Rightarrow> (string \<Rightarrow> string) \<Rightarrow> args \<Rightarrow> nat \<Rightarrow> json \<Rightarrow> py_error + (string \<times> dict)" where
  \<comment> \<open>the file name and the project object of one record; \<open>.get\<close> on anything but a
      dictionary is an AttributeError\<close>
  "export_one repr rel_for a idx entry =
     (case entry of
        JObj e \<Rightarrow>
          (case output_filename repr idx e of
             Inl err \<Rightarrow> Inl err
           | Inr filename \<Rightarrow>
               (case dataset_to_project e (arg_base_url a) (rel_for filename) of
                  Inl err \<Rightarrow> Inl err
                | Inr project_obj \<Rightarrow> Inr (filename, project_obj)))
      | _ \<Rightarrow> Inl AttributeError)"

definition written :: "args \<Rightarrow> run_state \<Rightarrow> string \<Rightarrow> dict \<Rightarrow> run_state" where
  \<comment> \<open>the state once the file is written: the file holds the project, and
      \<open>ids.append(entry_id)\<close> is done for a non-empty text \<open>@id\<close>\<close>
  "written a st filename project_obj =
     st\<lparr>st_files := (st_files st)(path_join (arg_out_dir a) filename \<mapsto> JsonFile project_obj),
        st_ids := st_ids st @ (case get project_obj ''@id'' of
                                 JStr entry_id \<Rightarrow> (if entry_id \<noteq> [] then [entry_id] else [])
                               | _ \<Rightarrow> [])\<rparr>"

definition write_project ::
  "file_ops \<Rightarrow> args \<Rightarrow> run_state \<Rightarrow> string \<Rightarrow> dict \<Rightarrow> py_error + run_state" where
  \<comment> \<open>\<open>with out_path.open("w") as f: json.dump(project_obj, f, ...)\<close>, which may raise\<close>
  "write_project ops a st filename project_obj =
     (case write_file ops (path_join (arg_out_dir a) filename) (JsonFile project_obj) of
        Some err \<Rightarrow> Inl err
      | None \<Rightarrow> Inr (written a st filename project_obj))"

fun export_loop ::
  "(json \<Rightarrow> string) \<Rightarrow> (string \<Rightarrow> string) \<Rightarrow> file_ops \<Rightarrow> args \<Rightarrow> nat \<Rightarrow> json list \<Rightarrow> run_state
     \<Rightarrow> py_error + run_state" where
  \<comment> \<open>\<open>for idx, entry in enumerate(records, start=1)\<close>\<close>
  "export_loop repr rel_for ops a idx [] st = Inr st"
| "export_loop repr rel_for ops a idx (entry # rest) st =
     (case export_one repr rel_for a idx entry of
        Inl err \<Rightarrow> Inl err
      | Inr (filename, project_obj) \<Rightarrow>
          (case write_project ops a st filename project_obj of
             Inl err \<Rightarrow> Inl err
           | Inr st1 \<Rightarrow> export_loop repr rel_for ops a (Suc idx) rest st1))"

definition write_sitemap :: "file_ops \<Rightarrow> string \<Rightarrow> run_state \<Rightarrow> py_error + run_state" where
  \<comment> \<open>\<open>if args.sitemap\<close>: the parent directory is created and the sitemap written\<close>
  "write_sitemap ops path st =
     (case make_parent ops path of
        Some err \<Rightarrow> Inl err
      | None \<Rightarrow>
          (let sitemap_xml = build_sitemap_xml (st_ids st) in
           case write_file ops path (TextFile sitemap_xml) of
             Some err \<Rightarrow> Inl err
           | None \<Rightarrow>
               Inr (st\<lparr>st_files := (st_files st)(path \<mapsto> TextFile sitemap_xml),
                        st_stderr := st_stderr st @
                          [''Wrote sitemap with '' @ str_nat (length (st_ids st))
                             @ '' entries to '' @ path]\<rparr>)))"

definition main ::
  "(json \<Rightarrow> string) \<Rightarrow> (string \<Rightarrow> string) \<Rightarrow> file_ops \<Rightarrow> args \<Rightarrow> (string \<rightharpoonup> content)
     \<Rightarrow> py_error + (int \<times> run_state)" where
  \<comment> \<open>the exit code and the state at the end\<close>
  "main repr rel_for ops a files0 =
     (case read_input ops (arg_input a) of
        Inl err \<Rightarrow> Inl err
      | Inr data \<Rightarrow>
          (let records = load_graph data in
           if records = [] then
             Inr (1, \<lparr>st_files = files0, st_ids = [],
                       st_stderr = [''No records found in '' @ arg_input a]\<rparr>)
           else
             (case make_dir ops (arg_out_dir a) of
                Some err \<Rightarrow> Inl err
              | None \<Rightarrow>
                  (case export_loop repr rel_for ops a 1 records
                          \<lparr>st_files = files0, st_ids = [], st_stderr = []\<rparr> of
                     Inl err \<Rightarrow> Inl err
                   | Inr st \<Rightarrow>
                       (let st1 = st\<lparr>st_stderr := st_stderr st @
                                      [''Wrote '' @ str_nat (length records)
                                         @ '' project JSON file(s) under '' @ arg_out_dir a]\<rparr>
                        in case arg_sitemap a of
                             Some path \<Rightarrow>
                               (case write_sitemap ops path st1 of
                                  Inl err \<Rightarrow> Inl err
                                | Inr st2 \<Rightarrow> Inr (0, st2))
                           | None \<Rightarrow> Inr (0, st1))))))"

section \<open>Harvester (metadata-cat.py)\<close>

definition DEFAULT_COMMUNITY :: string where
  "DEFAULT_COMMUNITY = ''bioecoocean''"

subsection \<open>Record lister\<close>

text \<open>
  The search endpoint is a function from the request (community, page size, page number)
  to either a failure of the request (\<open>raise_for_status\<close>) or the decoded answer: the list
  \<open>data["hits"]["hits"]\<close> and the number \<open>data["hits"]["total"]\<close>. The pause between two requests
  and the messages on the diagnostic stream do not change any value and are left out of
  the Harvester.
\<close>

record search_page =
  page_hits :: "dict list"
  page_total :: int

type_synonym endpoint = "string \<Rightarrow> nat \<Rightarrow> nat \<Rightarrow> py_error + search_page"

fun collect_hits :: "dict list \<Rightarrow> dict list \<Rightarrow> dict list" where
  \<comment> \<open>\<open>for h in hits\<close>: a hit with an id is appended with its id and metadata\<close>
  "collect_hits all_hits [] = all_hits"
| "collect_hits all_hits (h # hits) =
     (let rec_id = get h ''id'' in
      if rec_id \<noteq> JNull then
        collect_hits (all_hits @ [[(''id'', rec_id),
                                   (''metadata'', get_default h ''metadata'' (JObj []))]]) hits
      else collect_hits all_hits hits)"

partial_function (option) page_loop ::
  "(nat \<Rightarrow> py_error + search_page) \<Rightarrow> int option \<Rightarrow> nat \<Rightarrow> dict list
     \<Rightarrow> (py_error + dict list) option" where
  \<comment> \<open>the \<open>while True\<close> loop; a run that never leaves it has no result\<close>
  "page_loop fetch_page max_pages page all_hits =
     (case fetch_page page of
        Inl err \<Rightarrow> Some (Inl err)
      | Inr data \<Rightarrow>
          (let all_hits1 = collect_hits all_hits (page_hits data) in
           if page_hits data = [] then Some (Inr all_hits1)
           else if (case max_pages of Some m \<Rightarrow> m \<le> int page | None \<Rightarrow> False)
             then Some (Inr all_hits1)
           else if page_total data \<le> int (length all_hits1) then Some (Inr all_hits1)
           else page_loop fetch_page max_pages (page + 1) all_hits1))"

declare page_loop.simps [code]

definition list_community_records ::
  "endpoint \<Rightarrow> string \<Rightarrow> nat \<Rightarrow> int option \<Rightarrow> (py_error + dict list) option" where
  "list_community_records ep community page_size max_pages =
     page_loop (ep community page_size) max_pages 1 []"

subsection \<open>Stub synthesizer\<close>

fun creator_people :: "json list \<Rightarrow> py_error + json list" where
  \<comment> \<open>\<open>[{"@type": "Person", "name": c.get("name", "")} for c in creators]\<close>\<close>
  "creator_people [] = Inr []"
| "creator_people (c # cs) =
     (case c of
        JObj d \<Rightarrow>
          (case creator_people cs of
             Inl err \<Rightarrow> Inl err
           | Inr people \<Rightarrow>
               Inr (JObj [(''@type'', JStr ''Person''), (''name'', get_default d ''name'' (JStr []))]
                    # people))
      | _ \<Rightarrow> Inl AttributeError)"

definition creators_field :: "json \<Rightarrow> py_error + json list option" where
  \<comment> \<open>the \<open>creator\<close> list for \<open>metadata.get("creators")\<close>, when that is truthy: iterating a
      text or a dictionary yields texts, which have no \<open>get\<close>; a number is not iterable\<close>
  "creators_field creators =
     (if truthy creators then
        (case creators of
           JArr cs \<Rightarrow> (case creator_people cs of Inl err \<Rightarrow> Inl err | Inr people \<Rightarrow> Inr (Some people))
         | JStr s \<Rightarrow> Inl AttributeError
         | JObj d \<Rightarrow> Inl AttributeError
         | _ \<Rightarrow> Inl TypeError)
      else Inr None)"

definition copy_if_truthy :: "dict \<Rightarrow> string \<Rightarrow> json \<Rightarrow> dict" where
  \<comment> \<open>\<open>if value: stub[key] = value\<close>\<close>
  "copy_if_truthy stub key v = (if truthy v then dict_set stub key v else stub)"

definition metadata_to_schema_stub :: "(json \<Rightarrow> string) \<Rightarrow> json \<Rightarrow> json \<Rightarrow> py_error + dict" where
  "metadata_to_schema_stub repr rec_id metadata =
     (let url = ''https://zenodo.org/record/'' @ py_str repr rec_id in
      case metadata of
        JObj m \<Rightarrow>
          (let doi = get m ''doi'';
               identifier = (if truthy doi then ''https://doi.org/'' @ py_str repr doi else url);
               stub0 = [(''@context'', JStr ''https://schema.org/''),
                        (''@type'', JStr ''CreativeWork''),
                        (''@id'', JStr url),
                        (''name'', py_or (get m ''title'')
                                     (JStr (''Zenodo record '' @ py_str repr rec_id))),
                        (''identifier'', JStr identifier),
                        (''url'', JStr url)];
               stub1 = copy_if_truthy stub0 ''description'' (get m ''description'');
               stub2 = copy_if_truthy stub1 ''datePublished'' (get m ''publication_date'')
           in case creators_field (get m ''creators'') of
                Inl err \<Rightarrow> Inl err
              | Inr people \<Rightarrow>
                  (let stub3 = (case people of
                                  Some ps \<Rightarrow> dict_set stub2 ''creator'' (JArr ps)
                                | None \<Rightarrow> stub2);
                       stub4 = copy_if_truthy stub3 ''keywords'' (get m ''keywords'');
                       stub5 = copy_if_truthy stub4 ''license'' (get m ''license'')
                   in Inr stub5))
      | _ \<Rightarrow> Inl AttributeError)"

subsection \<open>RSS harvester\<close>

text \<open>
  A feed item is given by the six elements the code looks for. Each is absent, or present
  with a text that may be missing. The fetch of the feed fails, or its text is no XML, or
  it is a document with or without a \<open>channel\<close>. The date parser is a parameter: the ISO
  date of an RFC 2822 date text, or nothing where \<open>parsedate_to_datetime\<close> raises.
\<close>

record rss_item =
  title_el :: "string option option"
  link_el :: "string option option"
  desc_el :: "string option option"
  pub_el :: "string option option"
  eml_el :: "string option option"
  dwca_el :: "string option option"

datatype rss_feed = FetchFailed | ParseFailed | Feed "rss_item list option"

definition el_text :: "string option option \<Rightarrow> string option" where
  \<comment> \<open>the text when \<open>el is not None and el.text\<close>\<close>
  "el_text el = (case el of Some (Some t) \<Rightarrow> (if t \<noteq> [] then Some t else None) | _ \<Rightarrow> None)"

function strip_tags :: "string \<Rightarrow> string" where
  \<comment> \<open>\<open>re.sub(r"<[^>]+>", " ", text)\<close>\<close>
  "strip_tags [] = []"
| "strip_tags (c # cs) =
     (if c = CHR ''<'' \<and> takeWhile (\<lambda>x. x \<noteq> CHR ''>'') cs \<noteq> []
         \<and> dropWhile (\<lambda>x. x \<noteq> CHR ''>'') cs \<noteq> []
      then CHR '' '' # strip_tags (tl (dropWhile (\<lambda>x. x \<noteq> CHR ''>'') cs))
      else c # strip_tags cs)"
  by pat_completeness auto
termination
proof (relation "measure length")
  fix c :: char and cs :: string
  have "length (tl (dropWhile (\<lambda>x. x \<noteq> CHR ''>'') cs)) \<le> length cs"
    using length_dropWhile_le [of "\<lambda>x. x \<noteq> CHR ''>''" cs] by simp
  then show "(tl (dropWhile (\<lambda>x. x \<noteq> CHR ''>'') cs), c # cs) \<in> measure length"
    by simp
qed simp_all

definition strip_html :: "string \<Rightarrow> string" where
  "strip_html text = py_strip (re_sub_runs py_space '' '' (strip_tags text))"

definition item_to_dataset :: "(string \<Rightarrow> string option) \<Rightarrow> rss_item \<Rightarrow> py_error + dict" where
  "item_to_dataset parse_date item =
     (let title = (case el_text (title_el item) of Some t \<Rightarrow> py_strip t | None \<Rightarrow> []);
          link = (case el_text (link_el item) of Some t \<Rightarrow> py_strip t | None \<Rightarrow> [])
      in case desc_el item of
           None \<Rightarrow> Inl AttributeError
         | Some desc_text \<Rightarrow>
             (let desc = strip_html (case desc_text of Some t \<Rightarrow> t | None \<Rightarrow> []);
                  date_published =
                    (case el_text (pub_el item) of
                       Some t \<Rightarrow> (case parse_date (py_strip t) of Some d \<Rightarrow> d | None \<Rightarrow> py_strip t)
                     | None \<Rightarrow> []);
                  identifier_val =
                    (case el_text (eml_el item) of
                       Some t \<Rightarrow> Some (py_strip t)
                     | None \<Rightarrow> (if link \<noteq> [] then Some link else None));
                  dataset0 = [(''@context'', JStr ''https://schema.org/''),
                              (''@type'', JStr ''Dataset''),
                              (''name'', JStr (if title \<noteq> [] then title else ''OBIS IPT resource'')),
                              (''description'', JStr desc),
                              (''url'', JStr (if link \<noteq> [] then link
                                              else (case identifier_val of
                                                      Some v \<Rightarrow> v
                                                    | None \<Rightarrow> [])))];
                  dataset1 = (case identifier_val of
                                Some v \<Rightarrow>
                                  (if v \<noteq> [] then
                                     dict_set dataset0 ''identifier''
                                       (JObj [(''@type'', JStr ''PropertyValue''),
                                              (''description'', JStr ''OBIS IPT resource''),
                                              (''propertyID'', JStr ''url''),
                                              (''url'', JStr v),
                                              (''value'', JStr v)])
                                   else dataset0)
                              | None \<Rightarrow> dataset0);
                  dataset2 = (if date_published \<noteq> []
                              then dict_set dataset1 ''datePublished'' (JStr date_published)
                              else dataset1);
                  distributions =
                    (case el_text (eml_el item) of
                       Some t \<Rightarrow> [JObj [(''@type'', JStr ''DataDownload''),
                                        (''name'', JStr ''EML metadata''),
                                        (''encodingFormat'', JStr ''application/xml''),
                                        (''contentUrl'', JStr (py_strip t))]]
                     | None \<Rightarrow> [])
                    @ (case el_text (dwca_el item) of
                         Some t \<Rightarrow> [JObj [(''@type'', JStr ''DataDownload''),
                                          (''name'', JStr ''Darwin Core Archive''),
                                          (''encodingFormat'', JStr ''application/zip''),
                                          (''contentUrl'', JStr (py_strip t))]]
                       | None \<Rightarrow> []);
                  dataset3 = (if distributions \<noteq> []
                              then dict_set dataset2 ''distribution'' (JArr distributions)
                              else dataset2)
              in Inr dataset3))"

fun harvest_items ::
  "(string \<Rightarrow> string option) \<Rightarrow> json list \<Rightarrow> rss_item list \<Rightarrow> py_error + json list" where
  \<comment> \<open>\<open>for item in channel.findall("item")\<close>, appending to \<open>datasets\<close>\<close>
  "harvest_items parse_date datasets [] = Inr datasets"
| "harvest_items parse_date datasets (item # items) =
     (case item_to_dataset parse_date item of
        Inl err \<Rightarrow> Inl err
      | Inr dataset \<Rightarrow> harvest_items parse_date (datasets @ [JObj dataset]) items)"

definition harvest_obis_rss :: "(string \<Rightarrow> string option) \<Rightarrow> rss_feed \<Rightarrow> py_error + json list" where
  "harvest_obis_rss parse_date feed =
     (case feed of
        FetchFailed \<Rightarrow> Inr []
      | ParseFailed \<Rightarrow> Inr []
      | Feed None \<Rightarrow> Inr []
      | Feed (Some items) \<Rightarrow> harvest_items parse_date [] items)"

subsection \<open>Detail fetcher\<close>

text \<open>
  The export endpoint is a function from the record id to either a failure of the request
  (\<open>requests.get\<close> raises outside every handler) or the response: its status, its content
  type, and the value \<open>r.json()\<close> decodes from the body, if the body is JSON. The decoded
  value is returned as it is, whatever its shape; Python's \<open>None\<close> is \<open>JNull\<close>.
\<close>

record http_response =
  resp_status :: nat
  resp_content_type :: "string option"
  resp_json :: "json option"

type_synonym export_endpoint = "json \<Rightarrow> py_error + http_response"

definition fetch_record_jsonld :: "export_endpoint \<Rightarrow> json \<Rightarrow> py_error + json" where
  "fetch_record_jsonld http record_id =
     (case http record_id of
        Inl err \<Rightarrow> Inl err
      | Inr r \<Rightarrow>
          (if resp_status r \<noteq> 200 then Inr JNull
           else
             (let ct = py_lower (case resp_content_type r of Some c \<Rightarrow> c | None \<Rightarrow> [])
              in if \<not> contains ''json'' ct \<and> \<not> contains ''ld+json'' ct then
                   (case resp_json r of Some v \<Rightarrow> Inr v | None \<Rightarrow> Inr JNull)
                 else
                   (case resp_json r of Some v \<Rightarrow> Inr v | None \<Rightarrow> Inr JNull))))"

subsection \<open>Catalogue builder\<close>

definition catalogue_entry ::
  "export_endpoint \<Rightarrow> (json \<Rightarrow> string) \<Rightarrow> dict \<Rightarrow> py_error + json" where
  \<comment> \<open>the body of \<open>for hit in hits\<close>: what is appended to the catalogue, the export when
      \<open>ld is not None and ld.get("@type")\<close> and the stub otherwise; \<open>ld.get\<close> on a value
      that is neither \<open>None\<close> nor a dictionary is an AttributeError\<close>
  "catalogue_entry http repr hit =
     (case map_of hit ''id'' of
        None \<Rightarrow> Inl KeyError
      | Some rec_id \<Rightarrow>
          (let meta = get_default hit ''metadata'' (JObj []) in
           case fetch_record_jsonld http rec_id of
             Inl err \<Rightarrow> Inl err
           | Inr ld \<Rightarrow>
               (let fallback = (case metadata_to_schema_stub repr rec_id meta of
                                  Inl err \<Rightarrow> Inl err
                                | Inr stub \<Rightarrow> Inr (JObj stub))
                in case ld of
                     JNull \<Rightarrow> fallback
                   | JObj d \<Rightarrow> (if truthy (get d ''@type'') then Inr (JObj d) else fallback)
                   | _ \<Rightarrow> Inl AttributeError)))"

fun catalogue_loop ::
  "export_endpoint \<Rightarrow> (json \<Rightarrow> string) \<Rightarrow> json list \<Rightarrow> dict list \<Rightarrow> py_error + json list" where
  "catalogue_loop http repr catalogue [] = Inr catalogue"
| "catalogue_loop http repr catalogue (hit # hits) =
     (case catalogue_entry http repr hit of
        Inl err \<Rightarrow> Inl err
      | Inr entry \<Rightarrow> catalogue_loop http repr (catalogue @ [entry]) hits)"

definition build_catalogue ::
  "endpoint \<Rightarrow> export_endpoint \<Rightarrow> rss_feed \<Rightarrow> (string \<Rightarrow> string option) \<Rightarrow> (json \<Rightarrow> string)
     \<Rightarrow> string \<Rightarrow> int option \<Rightarrow> (py_error + json list) option" where
  "build_catalogue ep http feed parse_date repr community max_pages =
     (case list_community_records ep community 25 max_pages of
        None \<Rightarrow> None
      | Some (Inl err) \<Rightarrow> Some (Inl err)
      | Some (Inr hits) \<Rightarrow>
          Some (case catalogue_loop http repr [] hits of
                  Inl err \<Rightarrow> Inl err
                | Inr catalogue \<Rightarrow>
                    (if community = DEFAULT_COMMUNITY then
                       (case harvest_obis_rss parse_date feed of
                          Inl err \<Rightarrow> Inl err
                        | Inr obis_datasets \<Rightarrow>
                            Inr (if obis_datasets \<noteq> [] then catalogue @ obis_datasets
                                 else catalogue))
                     else Inr catalogue)))"

section \<open>Auxiliary notions for the proofs\<close>

subsection \<open>Words of a regular expression\<close>

inductive_set star :: "string set \<Rightarrow> string set" for A :: "string set" where
  star_nil: "[] \<in> star A"
| star_step: "u \<in> A \<Longrightarrow> v \<in> star A \<Longrightarrow> u @ v \<in> star A"

fun lang :: "rexp \<Rightarrow> string set" where
  "lang RNone = {}"
| "lang REps = {[]}"
| "lang (RClass p) = {[c] | c. p c}"
| "lang (RSeq r s) = {u @ v | u v. u \<in> lang r \<and> v \<in> lang s}"
| "lang (RAlt r s) = lang r \<union> lang s"
| "lang (RStar r) = star (lang r)"

subsection \<open>The shape of a slug\<close>

definition slug_char :: "char \<Rightarrow> bool" where
  "slug_char c = (lower_or_digit c \<or> c = CHR ''-'')"

fun no_double_hyphen :: "string \<Rightarrow> bool" where
  "no_double_hyphen (a # b # cs) =
     ((a \<noteq> CHR ''-'' \<or> b \<noteq> CHR ''-'') \<and> no_double_hyphen (b # cs))"
| "no_double_hyphen [a] = True"
| "no_double_hyphen [] = True"

definition slug_shaped :: "string \<Rightarrow> bool" where
  "slug_shaped s =
     (s \<noteq> [] \<and> list_all slug_char s \<and> no_double_hyphen s \<and>
      hd s \<noteq> CHR ''-'' \<and> last s \<noteq> CHR ''-'')"

definition slug_tail :: rexp where
  "slug_tail = RSeq (RClass (\<lambda>c. c = CHR ''-'')) (RPlus (RClass lower_or_digit))"

subsection \<open>The usable sub-fields of a structured identifier\<close>

definition object_value :: "dict \<Rightarrow> string option" where
  "object_value d = (case get d ''value'' of JStr v \<Rightarrow> Some v | _ \<Rightarrow> None)"

definition object_doi_url :: "dict \<Rightarrow> string option" where
  "object_doi_url d =
     (case get d ''url'' of
        JStr u \<Rightarrow> (if contains ''doi.org/'' u then Some u else None)
      | _ \<Rightarrow> None)"

subsection \<open>Reading a sitemap\<close>

fun count_sub :: "string \<Rightarrow> string \<Rightarrow> nat" where
  \<comment> \<open>the number of positions of a text at which a pattern starts\<close>
  "count_sub pat [] = 0"
| "count_sub pat (c # cs) = (if prefix pat (c # cs) then 1 else 0) + count_sub pat cs"

definition escape_char :: "char \<Rightarrow> string" where
  \<comment> \<open>the entity written for one character\<close>
  "escape_char c =
     (if c = CHR ''&'' then ''&amp;''
      else if c = CHR ''<'' then ''&lt;''
      else if c = CHR ''>'' then ''&gt;''
      else if c = CHR 0x22 then ''&quot;''
      else if c = CHR 0x27 then ''&#x27;''
      else [c])"

definition url_element :: "string \<Rightarrow> string" where
  "url_element loc = ''  <url><loc>'' @ concat (map escape_char loc) @ ''</loc></url>''"

definition xml_declaration :: string where
  "xml_declaration =
     ''<?xml version='' @ [CHR 0x22] @ ''1.0'' @ [CHR 0x22] @ '' encoding='' @ [CHR 0x22]
       @ ''UTF-8'' @ [CHR 0x22] @ ''?>''"

definition urlset_open :: string where
  "urlset_open =
     ''<urlset xmlns='' @ [CHR 0x22] @ ''http://www.sitemaps.org/schemas/sitemap/0.9''
       @ [CHR 0x22] @ ''>''"

subsection \<open>Records of the hosting service\<close>

definition funded :: "dict \<Rightarrow> bool" where
  \<comment> \<open>the record's url (\<open>url\<close>, else \<open>@id\<close>) is a text that contains the marker\<close>
  "funded entry = (case source_url entry of JStr u \<Rightarrow> contains zenodo_marker u | _ \<Rightarrow> False)"

subsection \<open>Records the Projector can map\<close>

definition mappable :: "json \<Rightarrow> bool" where
  \<comment> \<open>an object whose url (\<open>url\<close>, else \<open>@id\<close>, else the empty text) is a text, or a
      list or dictionary that does not hold the marker\<close>
  "mappable entry =
     (case entry of
        JObj e \<Rightarrow>
          (case source_url e of
             JStr u \<Rightarrow> True
           | JArr xs \<Rightarrow> JStr zenodo_marker \<notin> set xs
           | JObj d \<Rightarrow> zenodo_marker \<notin> set (map fst d)
           | _ \<Rightarrow> False)
      | _ \<Rightarrow> False)"

definition sample_args :: args where
  "sample_args =
     \<lparr>arg_input = ''catalogue.jsonld'', arg_out_dir = ''out'',
      arg_base_url = Some ''https://x.org/repo'', arg_sitemap = Some ''sitemap.xml''\<rparr>"

definition sample_repr :: "json \<Rightarrow> string" where
  "sample_repr v = ''?''"

definition sample_rel_for :: "string \<Rightarrow> string" where
  "sample_rel_for filename = ''out/'' @ filename"

definition no_files :: "string \<rightharpoonup> content" where
  "no_files = Map.empty"

definition sample_ops :: "json \<Rightarrow> file_ops" where
  \<comment> \<open>a file system on which the input file holds the value and every operation succeeds\<close>
  "sample_ops data =
     \<lparr>read_input = (\<lambda>path. Inr data), make_dir = (\<lambda>dir. None),
      make_parent = (\<lambda>path. None), write_file = (\<lambda>path c. None)\<rparr>"

fun export_all ::
  "(json \<Rightarrow> string) \<Rightarrow> (string \<Rightarrow> string) \<Rightarrow> args \<Rightarrow> nat \<Rightarrow> json list
     \<Rightarrow> py_error + (string \<times> dict) list" where
  \<comment> \<open>the file name and project object of every record, in order, up to the first failure\<close>
  "export_all repr rel_for a idx [] = Inr []"
| "export_all repr rel_for a idx (entry # rest) =
     (case export_one repr rel_for a idx entry of
        Inl err \<Rightarrow> Inl err
      | Inr fp \<Rightarrow>
          (case export_all repr rel_for a (Suc idx) rest of
             Inl err \<Rightarrow> Inl err
           | Inr fps \<Rightarrow> Inr (fp # fps)))"

definition id_url :: "string \<Rightarrow> string \<Rightarrow> string" where
  \<comment> \<open>the \<open>@id\<close> written for a base URL and a relative path\<close>
  "id_url b rel =
     rstrip_chars (\<lambda>c. c = CHR ''/'') b @ ''/'' @ lstrip_chars (\<lambda>c. c \<in> set ''./'') rel"

section \<open>Facts about the string operations\<close>

lemma find_sub_Some: "find_sub sep s = Some (b, t) \<Longrightarrow> s = b @ sep @ t"
proof (induction s arbitrary: b t)
  case Nil
  then show ?case by (simp split: if_splits)
next
  case (Cons c cs)
  show ?case
  proof (cases "prefix sep (c # cs)")
    case True
    with Cons.prems have b: "b = []" and t: "t = drop (length sep) (c # cs)" by simp_all
    from True obtain r where r: "c # cs = sep @ r" by (auto simp: prefix_def)
    then have "drop (length sep) (c # cs) = r" by (metis append_eq_conv_conj)
    with b t r show ?thesis by simp
  next
    case False
    with Cons.prems obtain b0 where f: "find_sub sep cs = Some (b0, t)" and b: "b = c # b0"
      by (auto split: option.splits)
    from Cons.IH [OF f] b show ?thesis by simp
  qed
qed

lemma find_sub_leftmost:
  "find_sub sep s = Some (b, t) \<Longrightarrow> s = b' @ sep @ t' \<Longrightarrow> length b \<le> length b'"
proof (induction s arbitrary: b t b')
  case Nil
  then show ?case by (simp split: if_splits)
next
  case (Cons c cs)
  show ?case
  proof (cases "prefix sep (c # cs)")
    case True
    with Cons.prems(1) have "b = []" by simp
    then show ?thesis by simp
  next
    case False
    with Cons.prems(1) obtain b0 where f: "find_sub sep cs = Some (b0, t)" and b: "b = c # b0"
      by (auto split: option.splits)
    from False Cons.prems(2) have "b' \<noteq> []" by (auto simp: prefix_def)
    with Cons.prems(2) obtain b'' where b': "b' = c # b''" and cs: "cs = b'' @ sep @ t'"
      by (cases b') auto
    from Cons.IH [OF f cs] b b' show ?thesis by simp
  qed
qed

lemma find_sub_None: "find_sub sep s = None \<Longrightarrow> s \<noteq> b @ sep @ t"
proof (induction s arbitrary: b)
  case Nil
  then show ?case by (simp split: if_splits)
next
  case (Cons c cs)
  from Cons.prems have np: "\<not> prefix sep (c # cs)" and f: "find_sub sep cs = None"
    by (auto split: if_splits option.splits)
  show ?case
  proof
    assume e: "c # cs = b @ sep @ t"
    from np e have "b \<noteq> []" by (auto simp: prefix_def)
    with e obtain b0 where "cs = b0 @ sep @ t" by (cases b) auto
    with Cons.IH [OF f] show False by blast
  qed
qed

lemma contains_iff: "contains sep s \<longleftrightarrow> (\<exists>b t. s = b @ sep @ t)"
proof
  assume "contains sep s"
  then obtain b t where "find_sub sep s = Some (b, t)" by (auto simp: contains_def)
  then show "\<exists>b t. s = b @ sep @ t" using find_sub_Some by blast
next
  assume "\<exists>b t. s = b @ sep @ t"
  then show "contains sep s" unfolding contains_def using find_sub_None by blast
qed

subsection \<open>Pages seen by the record lister\<close>

definition hits_after :: "(nat \<Rightarrow> py_error + search_page) \<Rightarrow> nat \<Rightarrow> dict list \<Rightarrow> dict list" where
  \<comment> \<open>\<open>all_hits\<close> after the hits of one page are collected\<close>
  "hits_after fetch_page page all_hits =
     (case fetch_page page of
        Inl err \<Rightarrow> all_hits
      | Inr data \<Rightarrow> collect_hits all_hits (page_hits data))"

fun hits_through :: "(nat \<Rightarrow> py_error + search_page) \<Rightarrow> nat \<Rightarrow> dict list" where
  \<comment> \<open>\<open>all_hits\<close> once pages 1 to \<open>n\<close> are collected\<close>
  "hits_through fetch_page 0 = []"
| "hits_through fetch_page (Suc n) = hits_after fetch_page (Suc n) (hits_through fetch_page n)"

definition stops_at :: "(nat \<Rightarrow> py_error + search_page) \<Rightarrow> int option \<Rightarrow> nat \<Rightarrow> bool" where
  \<comment> \<open>the loop, arriving at the page, ends there: the request fails, or the page has zero
      hits, or the page limit is reached, or the collected hits reach the reported total\<close>
  "stops_at fetch_page max_pages page =
     (case fetch_page page of
        Inl err \<Rightarrow> True
      | Inr data \<Rightarrow>
          page_hits data = [] \<or>
          (case max_pages of Some m \<Rightarrow> m \<le> int page | None \<Rightarrow> False) \<or>
          page_total data \<le> int (length (hits_through fetch_page page)))"

definition page_result :: "(nat \<Rightarrow> py_error + search_page) \<Rightarrow> nat \<Rightarrow> py_error + dict list" where
  \<comment> \<open>what the loop returns when it ends at the page\<close>
  "page_result fetch_page page =
     (case fetch_page page of
        Inl err \<Rightarrow> Inl err
      | Inr data \<Rightarrow> Inr (hits_through fetch_page page))"

definition idless_endpoint :: endpoint where
  \<comment> \<open>every page holds one hit without an id and reports a total of one\<close>
  "idless_endpoint community page_size page =
     Inr \<lparr>page_hits = [[(''title'', JStr ''x'')]], page_total = 1\<rparr>"

definition sample_endpoint :: endpoint where
  \<comment> \<open>three records on two pages\<close>
  "sample_endpoint community page_size page =
     (if page = 1 then
        Inr \<lparr>page_hits = [[(''id'', JInt 1)], [(''id'', JInt 2)]], page_total = 3\<rparr>
      else if page = 2 then
        Inr \<lparr>page_hits = [[(''id'', JInt 3), (''metadata'', JObj [(''title'', JStr ''t'')])]],
             page_total = 3\<rparr>
      else Inl HTTPError)"

subsection \<open>Sample inputs of the Harvester\<close>

definition no_date :: "string \<Rightarrow> string option" where
  \<comment> \<open>a date parser that rejects every text\<close>
  "no_date s = None"

definition bare_item :: rss_item where
  \<comment> \<open>an item with a title and a description, and neither a link nor an EML element\<close>
  "bare_item =
     \<lparr>title_el = Some (Some ''Cruise data''), link_el = None, desc_el = Some (Some ''<p>Counts</p>''),
      pub_el = None, eml_el = None, dwca_el = None\<rparr>"

definition linked_item :: rss_item where
  "linked_item =
     \<lparr>title_el = Some (Some ''Cruise data''),
      link_el = Some (Some '' https://ipt.obis.org/bioecoocean/resource?r=cruise ''),
      desc_el = Some (Some ''<p>Counts</p>''), pub_el = None,
      eml_el = Some (Some ''https://ipt.obis.org/bioecoocean/eml.do?r=cruise''), dwca_el = None\<rparr>"

definition json_response :: "json \<Rightarrow> http_response" where
  \<comment> \<open>a successful response with a JSON body\<close>
  "json_response v =
     \<lparr>resp_status = 200, resp_content_type = Some ''application/ld+json'', resp_json = Some v\<rparr>"

definition not_found :: http_response where
  "not_found = \<lparr>resp_status = 404, resp_content_type = Some ''text/html'', resp_json = None\<rparr>"

definition bare_export :: export_endpoint where
  \<comment> \<open>an export endpoint whose export has a type and nothing else\<close>
  "bare_export rec_id = Inr (json_response (JObj [(''@type'', JStr ''Dataset'')]))"

definition array_export :: export_endpoint where
  \<comment> \<open>an export endpoint that answers with an empty JSON array\<close>
  "array_export rec_id = Inr (json_response (JArr []))"

definition failing_export :: export_endpoint where
  \<comment> \<open>an export endpoint whose request times out\<close>
  "failing_export rec_id = Inl RequestException"

definition no_export :: export_endpoint where
  \<comment> \<open>an export endpoint that has no export for any record\<close>
  "no_export rec_id = Inr not_found"

definition one_record :: "dict \<Rightarrow> endpoint" where
  \<comment> \<open>a search endpoint whose first page holds the one hit, with a total of one\<close>
  "one_record h community page_size page =
     (if page = 1 then Inr \<lparr>page_hits = [h], page_total = 1\<rparr>
      else Inr \<lparr>page_hits = [], page_total = 1\<rparr>)"

definition item_link :: "rss_item \<Rightarrow> string" where
  \<comment> \<open>the stripped text of the link element, empty when there is none\<close>
  "item_link item = (case el_text (link_el item) of Some t \<Rightarrow> py_strip t | None \<Rightarrow> [])"

definition item_eml :: "rss_item \<Rightarrow> string" where
  \<comment> \<open>the stripped text of the EML element, empty when there is none\<close>
  "item_eml item = (case el_text (eml_el item) of Some t \<Rightarrow> py_strip t | None \<Rightarrow> [])"

fun catalogue_entries ::
  "export_endpoint \<Rightarrow> (json \<Rightarrow> string) \<Rightarrow> dict list \<Rightarrow> py_error + json list" where
  \<comment> \<open>what is appended for every listed record, in listing order, up to the first failure\<close>
  "catalogue_entries http repr [] = Inr []"
| "catalogue_entries http repr (hit # hits) =
     (case catalogue_entry http repr hit of
        Inl err \<Rightarrow> Inl err
      | Inr entry \<Rightarrow>
          (case catalogue_entries http repr hits of
             Inl err \<Rightarrow> Inl err
           | Inr entries \<Rightarrow> Inr (entry # entries)))"

definition sample_fetch :: export_endpoint where
  \<comment> \<open>record 1 has a typed export, record 2 an export without a type, the others none\<close>
  "sample_fetch rec_id =
     (if rec_id = JInt 1 then
        Inr (json_response (JObj [(''@type'', JStr ''Dataset''), (''name'', JStr ''One'')]))
      else if rec_id = JInt 2 then Inr (json_response (JObj [(''name'', JStr ''Two'')]))
      else Inr not_found)"

section \<open>Slug generator\<close>

subsection \<open>Correctness of the derivative matcher\<close>

lemma nullable_lang: "nullable r \<longleftrightarrow> [] \<in> lang r"
  by (induction r) (auto intro: star.star_nil)

lemma star_cons_split:
  assumes "w \<in> star A" and "w = c # x"
  shows "\<exists>u v. x = u @ v \<and> c # u \<in> A \<and> v \<in> star A"
  using assms
proof (induction arbitrary: x rule: star.induct)
  case star_nil
  then show ?case by simp
next
  case (star_step u v)
  show ?case
  proof (cases u)
    case Nil
    with star_step show ?thesis by simp
  next
    case (Cons d u')
    with star_step.prems have "d = c" and "x = u' @ v" by simp_all
    with Cons star_step.hyps show ?thesis by blast
  qed
qed

lemma star_cons_iff:
  "c # x \<in> star A \<longleftrightarrow> (\<exists>u v. x = u @ v \<and> c # u \<in> A \<and> v \<in> star A)"
proof
  assume "c # x \<in> star A"
  then show "\<exists>u v. x = u @ v \<and> c # u \<in> A \<and> v \<in> star A"
    using star_cons_split by blast
next
  assume "\<exists>u v. x = u @ v \<and> c # u \<in> A \<and> v \<in> star A"
  then obtain u v where "x = u @ v" "c # u \<in> A" "v \<in> star A" by blast
  then have "(c # u) @ v \<in> star A" by (intro star.star_step)
  with \<open>x = u @ v\<close> show "c # x \<in> star A" by simp
qed

lemma cons_in_conc:
  "(\<exists>u v. c # w = u @ v \<and> u \<in> A \<and> v \<in> B) \<longleftrightarrow>
     ([] \<in> A \<and> c # w \<in> B) \<or> (\<exists>u v. w = u @ v \<and> c # u \<in> A \<and> v \<in> B)"
  by (auto simp: Cons_eq_append_conv)

lemma deriv_lang: "w \<in> lang (deriv c r) \<longleftrightarrow> c # w \<in> lang r"
proof (induction r arbitrary: w)
  case (RSeq r s)
  have "c # w \<in> lang (RSeq r s) \<longleftrightarrow>
          ([] \<in> lang r \<and> c # w \<in> lang s) \<or>
          (\<exists>u v. w = u @ v \<and> c # u \<in> lang r \<and> v \<in> lang s)"
    using cons_in_conc [of c w "lang r" "lang s"] by simp
  with RSeq show ?case
    by (auto simp: nullable_lang)
next
  case (RStar r)
  then show ?case by (auto simp: star_cons_iff)
qed auto

lemma fullmatch_lang: "fullmatch r w \<longleftrightarrow> w \<in> lang r"
  by (induction w arbitrary: r) (simp_all add: nullable_lang deriv_lang)


lemma ndh_Cons:
  "no_double_hyphen (a # xs) =
     ((xs = [] \<or> a \<noteq> CHR ''-'' \<or> hd xs \<noteq> CHR ''-'') \<and> no_double_hyphen xs)"
  by (cases xs) auto

lemma ndh_append: "no_double_hyphen (xs @ ys) \<Longrightarrow> no_double_hyphen xs \<and> no_double_hyphen ys"
proof (induction xs)
  case Nil
  then show ?case by simp
next
  case (Cons a xs)
  then show ?case by (cases xs) (auto simp: ndh_Cons)
qed

lemma ndh_dropWhile: "no_double_hyphen s \<Longrightarrow> no_double_hyphen (dropWhile p s)"
  using ndh_append [of "takeWhile p s" "dropWhile p s"] by simp

lemma rstrip_decomp: "rstrip_chars p s @ rev (takeWhile p (rev s)) = s"
proof -
  have "rev (takeWhile p (rev s) @ dropWhile p (rev s)) = s" by simp
  then show ?thesis unfolding rstrip_chars_def rev_append .
qed

lemma ndh_rstrip: "no_double_hyphen s \<Longrightarrow> no_double_hyphen (rstrip_chars p s)"
  using ndh_append [of "rstrip_chars p s" "rev (takeWhile p (rev s))"]
  by (simp add: rstrip_decomp)

lemma ndh_strip: "no_double_hyphen s \<Longrightarrow> no_double_hyphen (strip_chars p s)"
  by (simp add: strip_chars_def lstrip_chars_def ndh_rstrip ndh_dropWhile)

lemma set_rstrip: "set (rstrip_chars p s) \<subseteq> set s"
  unfolding rstrip_chars_def using set_dropWhileD [of _ p "rev s"] by auto

lemma set_strip: "set (strip_chars p s) \<subseteq> set s"
  unfolding strip_chars_def lstrip_chars_def
  using set_rstrip [of p "dropWhile p s"] set_dropWhileD [of _ p s] by blast

lemma all_strip: "list_all q s \<Longrightarrow> list_all q (strip_chars p s)"
  using set_strip [of p s] by (auto simp: list_all_iff)

lemma last_rstrip: "rstrip_chars p s \<noteq> [] \<Longrightarrow> \<not> p (last (rstrip_chars p s))"
  unfolding rstrip_chars_def using hd_dropWhile [of p "rev s"] by (simp add: last_rev)

lemma hd_rstrip: "rstrip_chars p s \<noteq> [] \<Longrightarrow> hd (rstrip_chars p s) = hd s"
  using rstrip_decomp [of p s] by (metis hd_append2)

lemma strip_ends:
  assumes "strip_chars p s \<noteq> []"
  shows "\<not> p (hd (strip_chars p s))" and "\<not> p (last (strip_chars p s))"
proof -
  let ?t = "dropWhile p s"
  from assms have ne: "rstrip_chars p ?t \<noteq> []"
    by (simp add: strip_chars_def lstrip_chars_def)
  have "rstrip_chars p [] = []" by (simp add: rstrip_chars_def)
  with ne have "?t \<noteq> []" by metis
  then have "\<not> p (hd ?t)" by (rule hd_dropWhile)
  with ne show "\<not> p (hd (strip_chars p s))"
    by (simp add: strip_chars_def lstrip_chars_def hd_rstrip)
  from ne show "\<not> p (last (strip_chars p s))"
    by (simp add: strip_chars_def lstrip_chars_def last_rstrip)
qed

lemma set_re_sub_runs: "set (re_sub_runs p r s) \<subseteq> set r \<union> {c \<in> set s. \<not> p c}"
proof (induction p r s rule: re_sub_runs.induct)
  case (1 p r)
  show ?case by simp
next
  case (2 p r c cs)
  show ?case
  proof (cases "p c")
    case True
    have "set (dropWhile p cs) \<subseteq> set cs" by (auto dest: set_dropWhileD)
    with 2(1) [OF True] have "set (re_sub_runs p r (dropWhile p cs)) \<subseteq> set r \<union> {c \<in> set cs. \<not> p c}"
      by blast
    with True show ?thesis by auto
  next
    case False
    with 2(2) [OF False] show ?thesis by auto
  qed
qed

lemma all_sub_nonalnum:
  "list_all slug_char (re_sub_runs (\<lambda>c. \<not> lower_or_digit c) ''-'' s)"
  using set_re_sub_runs [of "\<lambda>c. \<not> lower_or_digit c" "''-''" s]
  by (auto simp: list_all_iff slug_char_def)

lemma all_sub_hyphen:
  "list_all slug_char s \<Longrightarrow> list_all slug_char (re_sub_runs (\<lambda>c. c = CHR ''-'') ''-'' s)"
  using set_re_sub_runs [of "\<lambda>c. c = CHR ''-''" "''-''" s]
  by (auto simp: list_all_iff slug_char_def)

lemma hd_re_sub_runs: "s \<noteq> [] \<Longrightarrow> \<not> p (hd s) \<Longrightarrow> hd (re_sub_runs p r s) = hd s"
  by (cases s) simp_all

lemma re_sub_runs_Nil: "r \<noteq> [] \<Longrightarrow> re_sub_runs p r s = [] \<longleftrightarrow> s = []"
  by (cases s) simp_all

lemma ndh_sub_runs:
  "(\<forall>c. p c \<longleftrightarrow> c = CHR ''-'') \<Longrightarrow> r = [CHR ''-''] \<Longrightarrow> no_double_hyphen (re_sub_runs p r s)"
proof (induction p r s rule: re_sub_runs.induct)
  case (1 p r)
  show ?case by simp
next
  case (2 q r c cs)
  let ?d = "dropWhile q cs"
  let ?r = "re_sub_runs q r ?d"
  note q = \<open>\<forall>c. q c \<longleftrightarrow> c = CHR ''-''\<close> and r = \<open>r = [CHR ''-'']\<close>
  show ?case
  proof (cases "q c")
    case True
    have ih: "no_double_hyphen ?r" using "2.IH"(1) [OF True q r] .
    have "?d = [] \<or> \<not> q (hd ?d)"
      using hd_dropWhile [of q cs] by blast
    then have "?r = [] \<or> hd ?r \<noteq> CHR ''-''"
    proof
      assume "?d = []"
      then show ?thesis by (simp only: re_sub_runs.simps simp_thms)
    next
      assume nq: "\<not> q (hd ?d)"
      show ?thesis
      proof (cases "?d = []")
        case True
        then show ?thesis by (simp only: re_sub_runs.simps simp_thms)
      next
        case False
        from False nq have "hd ?r = hd ?d" by (rule hd_re_sub_runs)
        with nq q show ?thesis by simp
      qed
    qed
    with ih have "no_double_hyphen (CHR ''-'' # ?r)"
      by (subst ndh_Cons) blast
    with True r show ?thesis by simp
  next
    case False
    have ih: "no_double_hyphen (re_sub_runs q r cs)"
      using "2.IH"(2) [OF False q r] .
    from False q have "c \<noteq> CHR ''-''" by simp
    with ih have "no_double_hyphen (c # re_sub_runs q r cs)"
      by (subst ndh_Cons) blast
    with False show ?thesis by simp
  qed
qed

lemma ndh_sub_hyphen: "no_double_hyphen (re_sub_runs (\<lambda>c. c = CHR ''-'') ''-'' s)"
  by (rule ndh_sub_runs) simp_all

lemma slugify_shaped: "slug_shaped (slugify s)"
proof -
  let ?t2 = "re_sub_runs (\<lambda>c. \<not> lower_or_digit c) ''-'' (py_strip (py_lower s))"
  let ?t3 = "strip_chars (\<lambda>c. c = CHR ''-'') (re_sub_runs (\<lambda>c. c = CHR ''-'') ''-'' ?t2)"
  show ?thesis
  proof (cases "?t3 = []")
    case True
    then have "slugify s = ''record''" by (simp add: slugify_def Let_def)
    then show ?thesis by (simp add: slug_shaped_def slug_char_def lower_or_digit_def)
  next
    case False
    then have eq: "slugify s = ?t3" by (simp add: slugify_def Let_def)
    have "list_all slug_char ?t3"
      by (intro all_strip all_sub_hyphen all_sub_nonalnum)
    moreover have "no_double_hyphen ?t3"
      by (intro ndh_strip ndh_sub_hyphen)
    moreover have "hd ?t3 \<noteq> CHR ''-''" "last ?t3 \<noteq> CHR ''-''"
      using strip_ends [OF False] by simp_all
    ultimately show ?thesis using False unfolding eq slug_shaped_def by simp
  qed
qed


subsection \<open>Slug-shaped strings are the words of the pattern\<close>

lemma star_class: "list_all p w \<Longrightarrow> w \<in> star (lang (RClass p))"
proof (induction w)
  case Nil
  show ?case by (rule star.star_nil)
next
  case (Cons c w)
  then have "[c] \<in> lang (RClass p)" "w \<in> star (lang (RClass p))" by simp_all
  then have "[c] @ w \<in> star (lang (RClass p))" by (rule star.star_step)
  then show ?case by simp
qed

lemma plus_class: "w \<noteq> [] \<Longrightarrow> list_all p w \<Longrightarrow> w \<in> lang (RPlus (RClass p))"
proof (cases w)
  case Nil
  assume "w \<noteq> []"
  with Nil show ?thesis by simp
next
  case (Cons c u)
  assume "list_all p w"
  with Cons have pc: "p c" and "list_all p u" by simp_all
  then have "u \<in> star (lang (RClass p))" by (intro star_class)
  with pc have "\<exists>a b. c # u = a @ b \<and> a \<in> lang (RClass p) \<and> b \<in> star (lang (RClass p))"
    by (intro exI [of _ "[c]"] exI [of _ u]) simp
  with Cons show ?thesis by (simp add: RPlus_def)
qed

lemma slug_re_tail: "slug_re = RSeq (RPlus (RClass lower_or_digit)) (RStar slug_tail)"
  by (simp add: slug_re_def slug_tail_def)

lemma slug_shaped_split:
  assumes "slug_shaped s"
  shows "\<exists>w t. s = w @ t \<and> w \<in> lang (RPlus (RClass lower_or_digit)) \<and> t \<in> star (lang slug_tail)"
  using assms
proof (induction "length s" arbitrary: s rule: less_induct)
  case less
  let ?w = "takeWhile lower_or_digit s" and ?t = "dropWhile lower_or_digit s"
  from less.prems have s: "s \<noteq> []" "list_all slug_char s" "no_double_hyphen s"
    "hd s \<noteq> CHR ''-''" "last s \<noteq> CHR ''-''"
    by (simp_all add: slug_shaped_def)
  from s have "lower_or_digit (hd s)"
    by (cases s) (auto simp: slug_char_def)
  with s(1) have wne: "?w \<noteq> []" by (cases s) auto
  have "list_all lower_or_digit ?w"
    by (auto simp: list_all_iff dest: set_takeWhileD)
  with wne have w: "?w \<in> lang (RPlus (RClass lower_or_digit))" by (rule plus_class)
  have st: "s = ?w @ ?t" by simp
  show ?case
  proof (cases ?t)
    case Nil
    have "[] \<in> star (lang slug_tail)" by (rule star.star_nil)
    with w st Nil show ?thesis by metis
  next
    case (Cons d u)
    have "\<not> lower_or_digit (hd ?t)"
      using hd_dropWhile [of lower_or_digit s] Cons by simp
    with Cons have nd: "\<not> lower_or_digit d" by simp
    have "d \<in> set s" using Cons set_dropWhileD [of d lower_or_digit s] by simp
    with s(2) nd have d: "d = CHR ''-''" by (auto simp: list_all_iff slug_char_def)
    have su: "s = ?w @ d # u" using st Cons by simp
    have une: "u \<noteq> []"
    proof
      assume "u = []"
      with su have "last s = d" by (metis last_snoc)
      with d s(5) show False by simp
    qed
    have ndh: "no_double_hyphen (d # u)"
      using s(3) ndh_append [of ?w "d # u"] su by simp
    with d une have hu: "hd u \<noteq> CHR ''-''" by (cases u) auto
    from ndh have ndhu: "no_double_hyphen u" by (simp add: ndh_Cons)
    have "set u \<subseteq> set s" using su by (metis set_subset_Cons set_append Un_upper2 subset_trans)
    with s(2) have au: "list_all slug_char u" by (auto simp: list_all_iff)
    have lu: "last u = last s" using su une by (metis last_appendR last_ConsR list.distinct(1))
    from une au ndhu hu lu s(5) have shu: "slug_shaped u" by (simp add: slug_shaped_def)
    have "length u < length s" using su by (metis length_append length_Cons less_add_Suc2 add_Suc_right)
    from less.hyps [OF this shu] obtain w' t' where
      u: "u = w' @ t'" and w': "w' \<in> lang (RPlus (RClass lower_or_digit))"
      and t': "t' \<in> star (lang slug_tail)" by blast
    from w' d have "d # w' \<in> lang slug_tail"
      by (simp add: slug_tail_def)
    from this t' have "(d # w') @ t' \<in> star (lang slug_tail)" by (rule star.star_step)
    with u have "d # u \<in> star (lang slug_tail)" by simp
    with w su show ?thesis by metis
  qed
qed

lemma slug_shaped_match: "slug_shaped s \<Longrightarrow> fullmatch slug_re s"
  using slug_shaped_split [of s] by (auto simp: fullmatch_lang slug_re_tail)


subsection \<open>Slug-shaped strings are fixed points\<close>

lemma dropWhile_id: "xs \<noteq> [] \<Longrightarrow> \<not> p (hd xs) \<Longrightarrow> dropWhile p xs = xs"
  by (cases xs) simp_all

lemma strip_chars_id:
  assumes "s \<noteq> []" "\<not> p (hd s)" "\<not> p (last s)"
  shows "strip_chars p s = s"
proof -
  from assms(1,2) have l: "dropWhile p s = s" by (rule dropWhile_id)
  from assms(1,3) have "rev s \<noteq> []" "\<not> p (hd (rev s))" by (simp_all add: hd_rev)
  then have "dropWhile p (rev s) = rev s" by (rule dropWhile_id)
  with l show ?thesis by (simp add: strip_chars_def lstrip_chars_def rstrip_chars_def)
qed

lemma re_sub_runs_id:
  "\<forall>c \<in> set s. p c \<longrightarrow> c = CHR ''-'' \<Longrightarrow> no_double_hyphen s \<Longrightarrow>
     re_sub_runs p ''-'' s = s"
proof (induction s)
  case Nil
  show ?case by simp
next
  case (Cons c cs)
  from Cons.prems have ih: "re_sub_runs p ''-'' cs = cs"
    by (intro Cons.IH) (simp_all add: ndh_Cons)
  show ?case
  proof (cases "p c")
    case True
    with Cons.prems have c: "c = CHR ''-''" by simp
    have "dropWhile p cs = cs"
    proof (cases cs)
      case Nil
      then show ?thesis by simp
    next
      case (Cons d ds)
      with Cons.prems(2) c have "d \<noteq> CHR ''-''" by simp
      with Cons.prems(1) Cons have "\<not> p d" by auto
      with Cons show ?thesis by simp
    qed
    with True c ih show ?thesis by simp
  next
    case False
    with ih show ?thesis by simp
  qed
qed

lemma lower_char_other: "c \<notin> set ''ABCDEFGHIJKLMNOPQRSTUVWXYZ'' \<Longrightarrow> lower_char c = c"
proof -
  assume a: "c \<notin> set ''ABCDEFGHIJKLMNOPQRSTUVWXYZ''"
  have "map fst (zip ''ABCDEFGHIJKLMNOPQRSTUVWXYZ'' ''abcdefghijklmnopqrstuvwxyz'') =
      ''ABCDEFGHIJKLMNOPQRSTUVWXYZ''"
    by (rule map_fst_zip) simp
  with a have "c \<notin> fst ` set (zip ''ABCDEFGHIJKLMNOPQRSTUVWXYZ'' ''abcdefghijklmnopqrstuvwxyz'')"
    by (metis set_map)
  then have "map_of (zip ''ABCDEFGHIJKLMNOPQRSTUVWXYZ'' ''abcdefghijklmnopqrstuvwxyz'') c = None"
    by (metis map_of_eq_None_iff)
  then show ?thesis by (simp only: lower_char_def option.case)
qed

lemma slug_not_upper:
  "set ''abcdefghijklmnopqrstuvwxyz0123456789-'' \<inter> set ''ABCDEFGHIJKLMNOPQRSTUVWXYZ'' = {}"
  by simp

lemma lower_char_slug: "slug_char c \<Longrightarrow> lower_char c = c"
proof -
  assume "slug_char c"
  then have "c \<in> set ''abcdefghijklmnopqrstuvwxyz0123456789-''"
    unfolding slug_char_def lower_or_digit_def by auto
  with slug_not_upper have "c \<notin> set ''ABCDEFGHIJKLMNOPQRSTUVWXYZ''" by blast
  then show ?thesis by (rule lower_char_other)
qed

lemma not_space_slug: "lower_or_digit c \<Longrightarrow> \<not> py_space c"
  by (auto simp: lower_or_digit_def py_space_def)

lemma slug_shaped_fixed:
  assumes "slug_shaped s"
  shows "slugify s = s"
proof -
  from assms have s: "s \<noteq> []" "list_all slug_char s" "no_double_hyphen s"
    "hd s \<noteq> CHR ''-''" "last s \<noteq> CHR ''-''"
    by (simp_all add: slug_shaped_def)
  from s(1,2) have "slug_char (hd s)" "slug_char (last s)" by (simp_all add: list_all_iff)
  with s(4,5) have ends: "\<not> py_space (hd s)" "\<not> py_space (last s)"
    by (auto simp: slug_char_def not_space_slug)
  from s(2) have 1: "py_lower s = s"
    unfolding py_lower_def by (intro map_idI) (simp add: list_all_iff lower_char_slug)
  from s(1) ends have 2: "py_strip s = s"
    unfolding py_strip_def by (rule strip_chars_id)
  from s(2) have "\<forall>c \<in> set s. \<not> lower_or_digit c \<longrightarrow> c = CHR ''-''"
    by (auto simp: list_all_iff slug_char_def)
  from this s(3) have 3: "re_sub_runs (\<lambda>c. \<not> lower_or_digit c) ''-'' s = s"
    by (rule re_sub_runs_id)
  have "\<forall>c \<in> set s. c = CHR ''-'' \<longrightarrow> c = CHR ''-''" by simp
  from this s(3) have 4: "re_sub_runs (\<lambda>c. c = CHR ''-'') ''-'' s = s"
    by (rule re_sub_runs_id)
  from s(1,4,5) have 5: "strip_chars (\<lambda>c. c = CHR ''-'') s = s"
    by (intro strip_chars_id) simp_all
  from s(1) show ?thesis by (simp add: slugify_def Let_def 1 2 3 4 5)
qed

text \<open>
  Claim C4. For every input text the slug either matches \<open>^[a-z0-9]+(-[a-z0-9]+)*$\<close> or is
  the fallback token \<open>record\<close>, and slugifying a slug gives the same slug.
\<close>

theorem slugify_regex_idempotent:
  "(fullmatch slug_re (slugify s) \<or> slugify s = ''record'') \<and> slugify (slugify s) = slugify s"
  using slugify_shaped [of s] by (simp add: slug_shaped_match slug_shaped_fixed)

theorem slugify_regex_idempotent_witness:
  "slugify ''  Hello, World! --- 42 '' = ''hello-world-42'' \<and>
   fullmatch slug_re (slugify ''  Hello, World! --- 42 '') \<and>
   slugify (slugify ''  Hello, World! --- 42 '') = slugify ''  Hello, World! --- 42 ''"
proof -
  have v: "slugify ''  Hello, World! --- 42 '' = ''hello-world-42''" by code_simp
  from slugify_regex_idempotent [of "''  Hello, World! --- 42 ''"]
  show ?thesis unfolding v by simp
qed

section \<open>DOI extractor\<close>

lemma extract_doi_url_text:
  "find_sub ''doi.org/'' s = Some (b, t) \<Longrightarrow> extract_doi (JStr s) = (Some t, Some s)"
  using find_sub_Some [of "''doi.org/''" s b t]
  by (auto simp: extract_doi_def str_truthy_def)

lemma extract_doi_plain_text:
  assumes "\<not> contains ''doi.org/'' s"
  shows "extract_doi (JStr s) = (Some s, if s = [] then None else Some (''https://doi.org/'' @ s))"
proof -
  from assms have f: "find_sub ''doi.org/'' s = None" unfolding contains_def by blast
  show ?thesis by (simp add: extract_doi_def str_truthy_def f)
qed

lemma object_doi_url_nonempty: "object_doi_url d = Some u \<Longrightarrow> u \<noteq> []"
  by (auto simp: object_doi_url_def contains_def split: json.splits if_splits)

lemma extract_doi_object:
  "extract_doi (JObj d) =
     (object_value d,
      case object_doi_url d of
        Some u \<Rightarrow> Some u
      | None \<Rightarrow> (case object_value d of
                   Some v \<Rightarrow> (if v = [] then None else Some (''https://doi.org/'' @ v))
                 | None \<Rightarrow> None))"
proof -
  have e: "extract_doi (JObj d) =
     (case object_value d of
        Some v \<Rightarrow> (if v \<noteq> [] \<and> \<not> str_truthy (object_doi_url d)
                   then (object_value d, Some (''https://doi.org/'' @ v))
                   else (object_value d, object_doi_url d))
      | None \<Rightarrow> (object_value d, object_doi_url d))"
    unfolding extract_doi_def object_value_def object_doi_url_def by simp
  show ?thesis
  proof (cases "object_doi_url d")
    case None
    then show ?thesis by (simp add: e str_truthy_def split: option.splits)
  next
    case (Some u)
    with object_doi_url_nonempty [OF Some] show ?thesis
      by (simp add: e str_truthy_def split: option.splits)
  qed
qed

text \<open>
  Claim C2, as stated, promises \<open>(s, "https://doi.org/" + s)\<close> for every plain text \<open>s\<close>.
  The empty text is plain and gets no URL: the synthesis is guarded by the truth value of
  the DOI value.
\<close>

theorem extract_doi_empty_text_counterexample:
  "\<not> contains ''doi.org/'' '''' \<and>
   extract_doi (JStr '''') = (Some '''', None) \<and>
   extract_doi (JStr '''') \<noteq> (Some '''', Some (''https://doi.org/'' @ ''''))"
  by (simp add: contains_def extract_doi_def str_truthy_def)

text \<open>
  Claim C2, amended. A text containing \<open>doi.org/\<close> maps to (the text after the leftmost
  marker, the whole text); a non-empty plain text \<open>s\<close> maps to
  \<open>(s, "https://doi.org/" + s)\<close> and the empty text to \<open>("", None)\<close>; a structured object
  yields its text \<open>value\<close> field as the value and its text \<open>url\<close> field as the URL only when
  that url contains \<open>doi.org/\<close>, the URL being synthesized from a non-empty value when
  there is no such url; an object with neither sub-field usable yields \<open>(None, None)\<close>.
\<close>

theorem extract_doi_cases:
  "(contains ''doi.org/'' s \<longrightarrow>
      (\<exists>b t. s = b @ ''doi.org/'' @ t \<and>
             (\<forall>b' t'. s = b' @ ''doi.org/'' @ t' \<longrightarrow> length b \<le> length b') \<and>
             extract_doi (JStr s) = (Some t, Some s))) \<and>
   (\<not> contains ''doi.org/'' s \<and> s \<noteq> [] \<longrightarrow>
      extract_doi (JStr s) = (Some s, Some (''https://doi.org/'' @ s))) \<and>
   extract_doi (JStr []) = (Some [], None) \<and>
   fst (extract_doi (JObj d)) = object_value d \<and>
   (object_doi_url d = Some u \<longrightarrow> snd (extract_doi (JObj d)) = Some u) \<and>
   (object_doi_url d = None \<and> object_value d = Some v \<and> v \<noteq> [] \<longrightarrow>
      snd (extract_doi (JObj d)) = Some (''https://doi.org/'' @ v)) \<and>
   (object_doi_url d = None \<and> (object_value d = None \<or> object_value d = Some []) \<longrightarrow>
      snd (extract_doi (JObj d)) = None) \<and>
   (object_value d = None \<and> object_doi_url d = None \<longrightarrow> extract_doi (JObj d) = (None, None)) \<and>
   extract_doi (JStr ''https://doi.org/10.5281/zenodo.123'') =
     (Some ''10.5281/zenodo.123'', Some ''https://doi.org/10.5281/zenodo.123'') \<and>
   extract_doi (JStr ''10.5281/zenodo.123'') =
     (Some ''10.5281/zenodo.123'', Some ''https://doi.org/10.5281/zenodo.123'') \<and>
   extract_doi (JObj []) = (None, None)"
proof -
  have 1: "contains ''doi.org/'' s \<longrightarrow>
      (\<exists>b t. s = b @ ''doi.org/'' @ t \<and>
             (\<forall>b' t'. s = b' @ ''doi.org/'' @ t' \<longrightarrow> length b \<le> length b') \<and>
             extract_doi (JStr s) = (Some t, Some s))"
  proof
    assume "contains ''doi.org/'' s"
    then obtain b t where f: "find_sub ''doi.org/'' s = Some (b, t)"
      by (auto simp: contains_def)
    have "s = b @ ''doi.org/'' @ t" using f by (rule find_sub_Some)
    moreover have "\<forall>b' t'. s = b' @ ''doi.org/'' @ t' \<longrightarrow> length b \<le> length b'"
      using find_sub_leftmost [OF f] by blast
    moreover have "extract_doi (JStr s) = (Some t, Some s)"
      using f by (rule extract_doi_url_text)
    ultimately show "\<exists>b t. s = b @ ''doi.org/'' @ t \<and>
             (\<forall>b' t'. s = b' @ ''doi.org/'' @ t' \<longrightarrow> length b \<le> length b') \<and>
             extract_doi (JStr s) = (Some t, Some s)"
      by blast
  qed
  have 2: "\<not> contains ''doi.org/'' s \<and> s \<noteq> [] \<longrightarrow>
      extract_doi (JStr s) = (Some s, Some (''https://doi.org/'' @ s))"
    by (simp add: extract_doi_plain_text)
  have 3: "extract_doi (JStr []) = (Some [], None)"
    by (simp add: contains_def extract_doi_def str_truthy_def)
  have 4: "fst (extract_doi (JObj d)) = object_value d"
    by (simp add: extract_doi_object)
  have 5: "object_doi_url d = Some u \<longrightarrow> snd (extract_doi (JObj d)) = Some u"
    by (simp add: extract_doi_object)
  have 6: "object_doi_url d = None \<and> object_value d = Some v \<and> v \<noteq> [] \<longrightarrow>
      snd (extract_doi (JObj d)) = Some (''https://doi.org/'' @ v)"
    by (simp add: extract_doi_object)
  have 7: "object_doi_url d = None \<and> (object_value d = None \<or> object_value d = Some []) \<longrightarrow>
      snd (extract_doi (JObj d)) = None"
    by (auto simp: extract_doi_object)
  have 8: "object_value d = None \<and> object_doi_url d = None \<longrightarrow> extract_doi (JObj d) = (None, None)"
    by (simp add: extract_doi_object)
  have 9: "extract_doi (JStr ''https://doi.org/10.5281/zenodo.123'') =
     (Some ''10.5281/zenodo.123'', Some ''https://doi.org/10.5281/zenodo.123'')"
    by (simp add: extract_doi_def str_truthy_def)
  have 10: "extract_doi (JStr ''10.5281/zenodo.123'') =
     (Some ''10.5281/zenodo.123'', Some ''https://doi.org/10.5281/zenodo.123'')"
    by (simp add: extract_doi_def str_truthy_def)
  have 11: "extract_doi (JObj []) = (None, None)"
    by (simp add: extract_doi_def get_def)
  from 1 2 3 4 5 6 7 8 9 10 11 show ?thesis by (intro conjI)
qed

theorem extract_doi_cases_witness:
  "contains ''doi.org/'' ''https://dx.doi.org/10.1/x'' \<and>
   extract_doi (JStr ''https://dx.doi.org/10.1/x'') = (Some ''10.1/x'', Some ''https://dx.doi.org/10.1/x'') \<and>
   object_value [(''value'', JStr ''10.1/y''), (''url'', JStr ''https://example.org/y'')] = Some ''10.1/y'' \<and>
   object_doi_url [(''value'', JStr ''10.1/y''), (''url'', JStr ''https://example.org/y'')] = None \<and>
   extract_doi (JObj [(''value'', JStr ''10.1/y''), (''url'', JStr ''https://example.org/y'')]) =
     (Some ''10.1/y'', Some ''https://doi.org/10.1/y'')"
proof -
  have c: "contains ''doi.org/'' ''https://dx.doi.org/10.1/x''"
    by (simp add: contains_def)
  have v: "object_value [(''value'', JStr ''10.1/y''), (''url'', JStr ''https://example.org/y'')] = Some ''10.1/y''"
    by (simp add: object_value_def get_def)
  have u: "object_doi_url [(''value'', JStr ''10.1/y''), (''url'', JStr ''https://example.org/y'')] = None"
    by (simp add: object_doi_url_def get_def contains_def)
  have e: "extract_doi (JStr ''https://dx.doi.org/10.1/x'') = (Some ''10.1/x'', Some ''https://dx.doi.org/10.1/x'')"
    by (simp add: extract_doi_def str_truthy_def)
  from extract_doi_cases [where s = "''https://dx.doi.org/10.1/x''"
      and d = "[(''value'', JStr ''10.1/y''), (''url'', JStr ''https://example.org/y'')]"
      and v = "''10.1/y''" and u = "''''"]
  have "fst (extract_doi (JObj [(''value'', JStr ''10.1/y''), (''url'', JStr ''https://example.org/y'')])) =
          Some ''10.1/y''"
    and "snd (extract_doi (JObj [(''value'', JStr ''10.1/y''), (''url'', JStr ''https://example.org/y'')])) =
          Some ''https://doi.org/10.1/y''"
    using v u by simp_all
  then have "extract_doi (JObj [(''value'', JStr ''10.1/y''), (''url'', JStr ''https://example.org/y'')]) =
     (Some ''10.1/y'', Some ''https://doi.org/10.1/y'')"
    by (simp add: prod_eq_iff)
  with c v u e show ?thesis by (intro conjI)
qed

section \<open>Sitemap builder\<close>

lemma replace_char_append:
  "replace_char c r (xs @ ys) = replace_char c r xs @ replace_char c r ys"
  by (simp add: replace_char_def)

lemma replace_char_concat:
  "replace_char c r (concat (map f s)) = concat (map (\<lambda>x. replace_char c r (f x)) s)"
  by (induction s) (simp_all add: replace_char_append, simp add: replace_char_def)

lemma escape_char_steps:
  "replace_char (CHR 0x27) ''&#x27;''
     (replace_char (CHR 0x22) ''&quot;''
        (replace_char (CHR ''>'') ''&gt;''
           (replace_char (CHR ''<'') ''&lt;''
              (if x = CHR ''&'' then ''&amp;'' else [x])))) = escape_char x"
  by (simp add: replace_char_def escape_char_def)

lemma html_escape_chars: "html_escape s = concat (map escape_char s)"
proof -
  have "replace_char (CHR ''&'') ''&amp;'' s = concat (map (\<lambda>x. if x = CHR ''&'' then ''&amp;'' else [x]) s)"
    by (simp add: replace_char_def)
  then show ?thesis
    unfolding html_escape_def
    by (simp only: replace_char_concat escape_char_steps)
qed

lemma escape_char_safe:
  "CHR ''<'' \<notin> set (escape_char c)" "CHR ''>'' \<notin> set (escape_char c)"
  "CHR 0x22 \<notin> set (escape_char c)" "CHR 0x27 \<notin> set (escape_char c)"
  by (simp_all add: escape_char_def)

lemma html_escape_safe:
  "CHR ''<'' \<notin> set (html_escape s)" "CHR ''>'' \<notin> set (html_escape s)"
  "CHR 0x22 \<notin> set (html_escape s)" "CHR 0x27 \<notin> set (html_escape s)"
  using escape_char_safe by (auto simp: html_escape_chars)

lemma sitemap_lines_map:
  "sitemap_lines lines locs = lines @ map url_element locs"
  by (induction locs arbitrary: lines) (simp_all add: url_element_def html_escape_chars)

lemma count_sub_skip:
  "CHR ''<'' \<notin> set a \<Longrightarrow> count_sub ''<url>'' (a @ b) = count_sub ''<url>'' b"
  by (induction a) auto

lemma count_sub_element:
  "count_sub ''<url>'' (url_element loc @ rest) = Suc (count_sub ''<url>'' rest)"
proof -
  have "CHR ''<'' \<notin> set (concat (map escape_char loc))"
    using escape_char_safe(1) by auto
  then have "count_sub ''<url>'' (concat (map escape_char loc) @ ''</loc></url>'' @ rest) =
      count_sub ''<url>'' (''</loc></url>'' @ rest)"
    by (rule count_sub_skip)
  then show ?thesis by (simp add: url_element_def)
qed

lemma count_sub_elements:
  "count_sub ''<url>'' (concat (map (\<lambda>x. CHR 0x0A # x) (map url_element locs)) @ rest) =
     length locs + count_sub ''<url>'' rest"
  by (induction locs) (simp_all add: count_sub_element)

lemma build_sitemap_xml_document:
  "build_sitemap_xml ids =
     join_lines ([xml_declaration, urlset_open] @ map url_element (filter (\<lambda>i. i \<noteq> []) ids)
                 @ [''</urlset>''])"
  by (simp add: build_sitemap_xml_def sitemap_lines_map xml_declaration_def urlset_open_def)

lemma build_sitemap_xml_count:
  "count_sub ''<url>'' (build_sitemap_xml ids) = length (filter (\<lambda>i. i \<noteq> []) ids)"
proof -
  let ?locs = "filter (\<lambda>i. i \<noteq> []) ids"
  have "build_sitemap_xml ids =
      xml_declaration @ CHR 0x0A # urlset_open @
        (concat (map (\<lambda>x. CHR 0x0A # x) (map url_element ?locs)) @ CHR 0x0A # ''</urlset>'')"
    by (simp add: build_sitemap_xml_document join_lines_def)
  moreover have "count_sub ''<url>'' (xml_declaration @ CHR 0x0A # urlset_open @ r) = count_sub ''<url>'' r" for r
    by (simp add: xml_declaration_def urlset_open_def)
  ultimately have "count_sub ''<url>'' (build_sitemap_xml ids) =
      count_sub ''<url>'' (concat (map (\<lambda>x. CHR 0x0A # x) (map url_element ?locs)) @ CHR 0x0A # ''</urlset>'')"
    by simp
  also have "\<dots> = length ?locs + count_sub ''<url>'' (CHR 0x0A # ''</urlset>'')"
    by (rule count_sub_elements)
  finally show ?thesis by simp
qed

text \<open>
  Claim C5. The sitemap is the XML declaration, the \<open>urlset\<close> line with the fixed namespace,
  one \<open><url><loc>...</loc></url>\<close> line per non-empty entry in input order, each entry
  written with \<open>&\<close>, \<open><\<close>, \<open>>\<close> and the double quote escaped, and the closing line; empty entries are
  dropped and repeated entries are kept, so the document holds as many \<open><url>\<close> elements as
  there are non-empty entries. For \<open>["https://a/b", ""]\<close> that is exactly one.
\<close>

theorem build_sitemap_xml_elements:
  "build_sitemap_xml ids =
     join_lines ([xml_declaration, urlset_open] @ map url_element (filter (\<lambda>i. i \<noteq> []) ids)
                 @ [''</urlset>'']) \<and>
   count_sub ''<url>'' (build_sitemap_xml ids) = length (filter (\<lambda>i. i \<noteq> []) ids) \<and>
   build_sitemap_xml [''https://a/b'', ''''] =
     join_lines [xml_declaration, urlset_open, ''  <url><loc>https://a/b</loc></url>'', ''</urlset>''] \<and>
   count_sub ''<url>'' (build_sitemap_xml [''https://a/b'', '''']) = 1"
proof -
  have "build_sitemap_xml [''https://a/b'', ''''] =
     join_lines [xml_declaration, urlset_open, ''  <url><loc>https://a/b</loc></url>'', ''</urlset>'']"
    by (simp add: build_sitemap_xml_document url_element_def escape_char_def)
  moreover have "count_sub ''<url>'' (build_sitemap_xml [''https://a/b'', '''']) = 1"
    by (simp add: build_sitemap_xml_count)
  ultimately show ?thesis
    using build_sitemap_xml_document [of ids] build_sitemap_xml_count [of ids] by (intro conjI)
qed

theorem build_sitemap_xml_elements_witness:
  "build_sitemap_xml [''a&b'', '''', ''<c>'', ''a&b''] =
     join_lines [xml_declaration, urlset_open,
                 ''  <url><loc>a&amp;b</loc></url>'',
                 ''  <url><loc>&lt;c&gt;</loc></url>'',
                 ''  <url><loc>a&amp;b</loc></url>'',
                 ''</urlset>''] \<and>
   count_sub ''<url>'' (build_sitemap_xml [''a&b'', '''', ''<c>'', ''a&b'']) = 3"
proof -
  note t = build_sitemap_xml_elements [of "[''a&b'', '''', ''<c>'', ''a&b'']"]
  from t have "build_sitemap_xml [''a&b'', '''', ''<c>'', ''a&b''] =
     join_lines ([xml_declaration, urlset_open]
                 @ map url_element (filter (\<lambda>i. i \<noteq> []) [''a&b'', '''', ''<c>'', ''a&b''])
                 @ [''</urlset>''])"
    by (rule conjunct1)
  then have 1: "build_sitemap_xml [''a&b'', '''', ''<c>'', ''a&b''] =
     join_lines [xml_declaration, urlset_open,
                 ''  <url><loc>a&amp;b</loc></url>'',
                 ''  <url><loc>&lt;c&gt;</loc></url>'',
                 ''  <url><loc>a&amp;b</loc></url>'',
                 ''</urlset>'']"
    by (simp add: url_element_def escape_char_def)
  from t have "count_sub ''<url>'' (build_sitemap_xml [''a&b'', '''', ''<c>'', ''a&b'']) =
      length (filter (\<lambda>i. i \<noteq> []) [''a&b'', '''', ''<c>'', ''a&b''])"
    by (elim conjE)
  then have 2: "count_sub ''<url>'' (build_sitemap_xml [''a&b'', '''', ''<c>'', ''a&b'']) = 3"
    by simp
  from 1 2 show ?thesis by (rule conjI)
qed

section \<open>Catalogue to project mapper\<close>

lemma map_of_dict_set: "map_of (dict_set d k v) k' = (if k' = k then Some v else map_of d k')"
  by (induction d k v rule: dict_set.induct) auto

lemma contains_nonempty: "contains sep s \<Longrightarrow> sep \<noteq> [] \<Longrightarrow> s \<noteq> []"
  by (auto simp: contains_def)

lemma parse_zenodo_rec_id_marker:
  assumes "parse_zenodo_rec_id entry = Inr r"
  shows "py_in zenodo_marker (source_url entry) = Inr (funded entry)"
  using assms
  by (cases "source_url entry")
     (auto simp: parse_zenodo_rec_id_def py_in_def funded_def Let_def split: if_splits)

lemma parse_zenodo_rec_id_text:
  assumes "source_url entry = JStr u"
  shows "\<exists>r. parse_zenodo_rec_id entry = Inr r"
proof (cases "find_sub zenodo_marker u")
  case None
  with assms show ?thesis
    by (simp add: parse_zenodo_rec_id_def py_in_def contains_def)
next
  case (Some bt)
  with assms show ?thesis
    by (cases bt) (simp add: parse_zenodo_rec_id_def py_in_def contains_def Let_def)
qed

lemma funded_truthy: "funded entry \<Longrightarrow> truthy (source_url entry)"
  by (auto simp: funded_def zenodo_marker_def split: json.splits dest: contains_nonempty)

lemma map_of_with_identifier:
  "k \<noteq> ''identifier'' \<Longrightarrow> map_of (with_identifier p i u) k = map_of p k"
  by (simp add: with_identifier_def map_of_dict_set split: option.splits)

lemma map_of_with_license:
  "k \<noteq> ''publishingPrinciples'' \<Longrightarrow> map_of (with_license p l) k = map_of p k"
  by (simp add: with_license_def map_of_dict_set split: option.splits prod.splits)

lemma map_of_with_keywords:
  "k \<noteq> ''keywords'' \<Longrightarrow> map_of (with_keywords p ks) k = map_of p k"
  by (simp add: with_keywords_def map_of_dict_set split: option.splits)

lemma map_of_with_id:
  "map_of (with_id p base_url rel) k =
     (if k = ''@id'' \<and> str_truthy base_url
      then map_option (\<lambda>b. JStr (rstrip_chars (\<lambda>c. c = CHR ''/'') b @ ''/'' @
                                   lstrip_chars (\<lambda>c. c \<in> set ''./'') rel)) base_url
      else map_of p k)"
  by (simp add: with_id_def map_of_dict_set str_truthy_def Let_def split: option.splits)

lemma dataset_to_project_fields:
  assumes "dataset_to_project entry base_url rel = Inr p"
  shows "map_of p ''funding'' = (if funded entry then Some (JArr [BIOECOOCEAN_FUNDING]) else None)"
    and "map_of p ''@id'' =
          (if str_truthy base_url
           then map_option (\<lambda>b. JStr (rstrip_chars (\<lambda>c. c = CHR ''/'') b @ ''/'' @
                                        lstrip_chars (\<lambda>c. c \<in> set ''./'') rel)) base_url
           else None)"
    and "map_of p ''url'' = Some (source_url entry)"
proof -
  from assms obtain r where r: "parse_zenodo_rec_id entry = Inr r"
    by (auto simp: dataset_to_project_def split: sum.splits)
  note m = parse_zenodo_rec_id_marker [OF r]
  have f: "(if truthy (source_url entry) then py_in zenodo_marker (source_url entry) else Inr False) =
      Inr (funded entry)"
    using m funded_truthy [of entry] by auto
  define p3 where "p3 = with_keywords (with_license (with_identifier
      [(''@context'', JStr ''https://schema.org/''), (''@type'', JStr ''Project''),
       (''name'', project_name entry r), (''description'', project_description entry),
       (''url'', source_url entry)] (get entry ''identifier'') (source_url entry))
      (get entry ''license'')) (get entry ''keywords'')"
  have k: "map_of p3 ''funding'' = None" "map_of p3 ''@id'' = None"
     "map_of p3 ''url'' = Some (source_url entry)"
    by (simp_all add: p3_def map_of_with_keywords map_of_with_license map_of_with_identifier)
  from assms have p: "p = with_id (if funded entry
      then dict_set p3 ''funding'' (JArr [BIOECOOCEAN_FUNDING]) else p3) base_url rel"
    by (auto simp: dataset_to_project_def r Let_def with_funding_def f p3_def)
  show "map_of p ''funding'' = (if funded entry then Some (JArr [BIOECOOCEAN_FUNDING]) else None)"
    by (simp add: p map_of_with_id map_of_dict_set k)
  show "map_of p ''@id'' =
          (if str_truthy base_url
           then map_option (\<lambda>b. JStr (rstrip_chars (\<lambda>c. c = CHR ''/'') b @ ''/'' @
                                        lstrip_chars (\<lambda>c. c \<in> set ''./'') rel)) base_url
           else None)"
    by (simp add: p map_of_with_id map_of_dict_set k)
  show "map_of p ''url'' = Some (source_url entry)"
    by (simp add: p map_of_with_id map_of_dict_set k)
qed

lemma dataset_to_project_total:
  assumes "source_url entry = JStr u"
  shows "\<exists>p. dataset_to_project entry base_url rel = Inr p"
proof -
  from parse_zenodo_rec_id_text [OF assms] obtain r where r: "parse_zenodo_rec_id entry = Inr r" ..
  have "\<exists>b. (if truthy (source_url entry) then py_in zenodo_marker (source_url entry) else Inr False) = Inr b"
    using assms by (cases "truthy (source_url entry)") (auto simp: py_in_def)
  then show ?thesis
    by (auto simp: dataset_to_project_def r Let_def with_funding_def)
qed

text \<open>
  Claim C1. A mapped record carries the \<open>funding\<close> field, holding the one fixed grant block
  whose \<open>identifier\<close> is \<open>101136748\<close>, if and only if its source url (the \<open>url\<close> field, else
  \<open>@id\<close>) contains \<open>zenodo.org/record/\<close>; every record whose source url is a text is mapped.
  A record with an OBIS IPT address gets no \<open>funding\<close> field.
\<close>

theorem dataset_to_project_funding:
  "(dataset_to_project entry base_url rel = Inr p \<longrightarrow>
      map_of p ''funding'' = (if funded entry then Some (JArr [BIOECOOCEAN_FUNDING]) else None)) \<and>
   (source_url entry = JStr u \<longrightarrow>
      (\<exists>q. dataset_to_project entry base_url rel = Inr q \<and>
            (map_of q ''funding'' \<noteq> None \<longleftrightarrow> contains zenodo_marker u) \<and>
            (map_of q ''funding'' \<noteq> None \<longrightarrow>
               map_of q ''funding'' = Some (JArr [BIOECOOCEAN_FUNDING])))) \<and>
   (\<exists>grant. BIOECOOCEAN_FUNDING = JObj grant \<and> map_of grant ''identifier'' = Some (JStr ''101136748'')) \<and>
   (\<exists>q. dataset_to_project [(''url'', JStr ''https://zenodo.org/record/789'')] base_url rel = Inr q \<and>
        map_of q ''funding'' = Some (JArr [BIOECOOCEAN_FUNDING])) \<and>
   (\<exists>q. dataset_to_project [(''url'', JStr ''https://ipt.obis.org/bioecoocean/resource?r=x'')]
          base_url rel = Inr q \<and>
        map_of q ''funding'' = None)"
proof -
  have 1: "dataset_to_project entry base_url rel = Inr p \<longrightarrow>
      map_of p ''funding'' = (if funded entry then Some (JArr [BIOECOOCEAN_FUNDING]) else None)"
    by (simp add: dataset_to_project_fields(1))
  have gen: "\<exists>q. dataset_to_project e base_url rel = Inr q \<and>
      map_of q ''funding'' = (if contains zenodo_marker v then Some (JArr [BIOECOOCEAN_FUNDING]) else None)"
    if "source_url e = JStr v" for e v
  proof -
    from dataset_to_project_total [OF that] obtain q where
      q: "dataset_to_project e base_url rel = Inr q" by blast
    from that have "funded e = contains zenodo_marker v" by (simp add: funded_def)
    with dataset_to_project_fields(1) [OF q] q show ?thesis by simp
  qed
  have 2: "source_url entry = JStr u \<longrightarrow>
      (\<exists>q. dataset_to_project entry base_url rel = Inr q \<and>
            (map_of q ''funding'' \<noteq> None \<longleftrightarrow> contains zenodo_marker u) \<and>
            (map_of q ''funding'' \<noteq> None \<longrightarrow>
               map_of q ''funding'' = Some (JArr [BIOECOOCEAN_FUNDING])))"
  proof
    assume "source_url entry = JStr u"
    from gen [OF this] obtain q where "dataset_to_project entry base_url rel = Inr q"
      and "map_of q ''funding'' = (if contains zenodo_marker u then Some (JArr [BIOECOOCEAN_FUNDING]) else None)"
      by blast
    then show "\<exists>q. dataset_to_project entry base_url rel = Inr q \<and>
            (map_of q ''funding'' \<noteq> None \<longleftrightarrow> contains zenodo_marker u) \<and>
            (map_of q ''funding'' \<noteq> None \<longrightarrow>
               map_of q ''funding'' = Some (JArr [BIOECOOCEAN_FUNDING]))"
      by (intro exI [of _ q]) simp
  qed
  have 3: "\<exists>grant. BIOECOOCEAN_FUNDING = JObj grant \<and> map_of grant ''identifier'' = Some (JStr ''101136748'')"
    by (simp add: BIOECOOCEAN_FUNDING_def)
  have "source_url [(''url'', JStr ''https://zenodo.org/record/789'')] = JStr ''https://zenodo.org/record/789''"
    by (simp add: source_url_def get_def py_or_def)
  from gen [OF this]
  have 4: "\<exists>q. dataset_to_project [(''url'', JStr ''https://zenodo.org/record/789'')] base_url rel = Inr q \<and>
        map_of q ''funding'' = Some (JArr [BIOECOOCEAN_FUNDING])"
    by (simp add: contains_def zenodo_marker_def)
  have "source_url [(''url'', JStr ''https://ipt.obis.org/bioecoocean/resource?r=x'')] =
      JStr ''https://ipt.obis.org/bioecoocean/resource?r=x''"
    by (simp add: source_url_def get_def py_or_def)
  from gen [OF this]
  have 5: "\<exists>q. dataset_to_project [(''url'', JStr ''https://ipt.obis.org/bioecoocean/resource?r=x'')]
          base_url rel = Inr q \<and> map_of q ''funding'' = None"
    by (simp add: contains_def zenodo_marker_def)
  from 1 2 3 4 5 show ?thesis by (intro conjI)
qed

theorem dataset_to_project_funding_witness:
  "source_url [(''name'', JStr ''Plankton counts''), (''@id'', JStr ''https://zenodo.org/record/42'')] =
     JStr ''https://zenodo.org/record/42'' \<and>
   contains zenodo_marker ''https://zenodo.org/record/42'' \<and>
   (\<exists>q. dataset_to_project
          [(''name'', JStr ''Plankton counts''), (''@id'', JStr ''https://zenodo.org/record/42'')]
          None ''a.json'' = Inr q \<and>
        map_of q ''funding'' = Some (JArr [BIOECOOCEAN_FUNDING]))"
proof -
  let ?e = "[(''name'', JStr ''Plankton counts''), (''@id'', JStr ''https://zenodo.org/record/42'')]"
  have s: "source_url ?e = JStr ''https://zenodo.org/record/42''"
    by (simp add: source_url_def get_def py_or_def)
  have c: "contains zenodo_marker ''https://zenodo.org/record/42''"
    by (simp add: contains_def zenodo_marker_def)
  from dataset_to_project_funding [of ?e None "''a.json''" "[]" "''https://zenodo.org/record/42''"] s c
  have "\<exists>q. dataset_to_project ?e None ''a.json'' = Inr q \<and>
        map_of q ''funding'' = Some (JArr [BIOECOOCEAN_FUNDING])"
    by auto
  with s c show ?thesis by (intro conjI)
qed

text \<open>
  The \<open>@id\<close> of a mapped record: present exactly when a non-empty base URL was given, and
  then the base URL without its trailing slashes, a slash, and the relative path without
  its leading run of dots and slashes.
\<close>

lemma dataset_to_project_id:
  assumes "dataset_to_project entry base_url rel = Inr p"
  shows "map_of p ''@id'' =
          (if str_truthy base_url
           then map_option (\<lambda>b. JStr (rstrip_chars (\<lambda>c. c = CHR ''/'') b @ ''/'' @
                                        lstrip_chars (\<lambda>c. c \<in> set ''./'') rel)) base_url
           else None)"
  using assms by (rule dataset_to_project_fields(2))

lemma dataset_to_project_id_plain_path:
  assumes "dataset_to_project entry (Some b) rel = Inr p" and "b \<noteq> []"
    and "rel \<noteq> []" and "hd rel \<noteq> CHR ''.''" and "hd rel \<noteq> CHR ''/''"
  shows "map_of p ''@id'' = Some (JStr (rstrip_chars (\<lambda>c. c = CHR ''/'') b @ ''/'' @ rel))"
proof -
  from assms(3-5) have "lstrip_chars (\<lambda>c. c \<in> set ''./'') rel = rel"
    by (cases rel) (simp_all add: lstrip_chars_def)
  with dataset_to_project_id [OF assms(1)] assms(2) show ?thesis
    by (simp add: str_truthy_def)
qed

text \<open>
  Claim C8 asks for the relative path with a leading \<open>./\<close> stripped. The code strips every
  leading dot and slash (\<open>lstrip("./")\<close> takes a set of characters), so for an output
  directory \<open>.out\<close> the \<open>@id\<close> names \<open>out/a.json\<close>, which is not the file's path.
\<close>

theorem dataset_to_project_id_dot_directory:
  "\<exists>p. dataset_to_project [(''url'', JStr ''https://example.org/d'')]
          (Some ''https://x.org/repo/'') ''.out/a.json'' = Inr p \<and>
       map_of p ''@id'' = Some (JStr ''https://x.org/repo/out/a.json'') \<and>
       map_of p ''@id'' \<noteq> Some (JStr ''https://x.org/repo/.out/a.json'')"
proof -
  have "source_url [(''url'', JStr ''https://example.org/d'')] = JStr ''https://example.org/d''"
    by (simp add: source_url_def get_def py_or_def)
  from dataset_to_project_total [OF this] obtain p where
    p: "dataset_to_project [(''url'', JStr ''https://example.org/d'')]
          (Some ''https://x.org/repo/'') ''.out/a.json'' = Inr p" by blast
  from dataset_to_project_id [OF p]
  have "map_of p ''@id'' = Some (JStr ''https://x.org/repo/out/a.json'')"
    by (simp add: str_truthy_def rstrip_chars_def lstrip_chars_def)
  with p show ?thesis by auto
qed

section \<open>The Projector command\<close>

lemma parse_zenodo_rec_id_ok: "(\<exists>r. parse_zenodo_rec_id e = Inr r) \<longleftrightarrow> mappable (JObj e)"
proof (cases "source_url e")
  case (JStr u)
  with parse_zenodo_rec_id_text [OF JStr] show ?thesis by (simp add: mappable_def)
qed (auto simp: parse_zenodo_rec_id_def py_in_def mappable_def Let_def)

lemma dataset_to_project_ok:
  "(\<exists>p. dataset_to_project e b rel = Inr p) \<longleftrightarrow> mappable (JObj e)"
proof
  assume "\<exists>p. dataset_to_project e b rel = Inr p"
  then have "\<exists>r. parse_zenodo_rec_id e = Inr r"
    by (auto simp: dataset_to_project_def split: sum.splits)
  then show "mappable (JObj e)" by (simp add: parse_zenodo_rec_id_ok)
next
  assume "mappable (JObj e)"
  then obtain r where r: "parse_zenodo_rec_id e = Inr r"
    using parse_zenodo_rec_id_ok by blast
  have "(if truthy (source_url e) then py_in zenodo_marker (source_url e) else Inr False) =
      Inr (truthy (source_url e) \<and> funded e)"
    using parse_zenodo_rec_id_marker [OF r] by simp
  then show "\<exists>p. dataset_to_project e b rel = Inr p"
    by (simp add: dataset_to_project_def r Let_def with_funding_def)
qed

lemma output_filename_ok:
  "(\<exists>f. output_filename repr idx e = Inr f) \<longleftrightarrow> mappable (JObj e)"
  unfolding parse_zenodo_rec_id_ok [symmetric]
  by (auto simp: output_filename_def Let_def split: sum.splits)

lemma export_one_ok:
  "(\<exists>fp. export_one repr rel_for a idx entry = Inr fp) \<longleftrightarrow> mappable entry"
proof (cases entry)
  case (JObj e)
  show ?thesis
  proof
    assume "\<exists>fp. export_one repr rel_for a idx entry = Inr fp"
    with JObj have "\<exists>f. output_filename repr idx e = Inr f"
      by (auto simp: export_one_def split: sum.splits)
    with JObj show "mappable entry" by (simp add: output_filename_ok)
  next
    assume m: "mappable entry"
    with JObj obtain f where f: "output_filename repr idx e = Inr f"
      using output_filename_ok by blast
    from m JObj obtain p where "dataset_to_project e (arg_base_url a) (rel_for f) = Inr p"
      using dataset_to_project_ok by blast
    with JObj f show "\<exists>fp. export_one repr rel_for a idx entry = Inr fp"
      by (simp add: export_one_def)
  qed
qed (simp_all add: export_one_def mappable_def)

lemma export_loop_ok:
  assumes "\<And>path c. write_file ops path c = None"
  shows "(\<exists>st'. export_loop repr rel_for ops a idx records st = Inr st') \<longleftrightarrow>
     list_all mappable records"
proof (induction records arbitrary: idx st)
  case Nil
  show ?case by simp
next
  case (Cons entry rest)
  show ?case
  proof (cases "export_one repr rel_for a idx entry")
    case (Inl err)
    then have "\<not> mappable entry" using export_one_ok [of repr rel_for a idx entry] by simp
    with Inl show ?thesis by simp
  next
    case (Inr fp)
    then have "mappable entry" using export_one_ok [of repr rel_for a idx entry] by blast
    with Inr Cons.IH show ?thesis by (cases fp) (simp add: write_project_def assms)
  qed
qed

lemma export_loop_fails:
  "\<not> list_all mappable records \<Longrightarrow> \<exists>err. export_loop repr rel_for ops a idx records st = Inl err"
proof (induction records arbitrary: idx st)
  case Nil
  then show ?case by simp
next
  case (Cons entry rest)
  show ?case
  proof (cases "export_one repr rel_for a idx entry")
    case (Inl err)
    then show ?thesis by simp
  next
    case (Inr fp)
    then have "mappable entry" using export_one_ok [of repr rel_for a idx entry] by blast
    with Cons.prems have rest: "\<not> list_all mappable rest" by simp
    obtain f p where fp: "fp = (f, p)" by (cases fp)
    show ?thesis
    proof (cases "write_project ops a st f p")
      case (Inl err)
      with Inr fp show ?thesis by simp
    next
      case st1: (Inr st1)
      from Cons.IH [OF rest, of "Suc idx" st1] Inr fp st1 show ?thesis by simp
    qed
  qed
qed

lemma main_empty:
  assumes "read_input ops (arg_input a) = Inr data" and "load_graph data = []"
  shows "main repr rel_for ops a files0 =
     Inr (1, \<lparr>st_files = files0, st_ids = [], st_stderr = [''No records found in '' @ arg_input a]\<rparr>)"
  using assms by (simp add: main_def)

lemma main_success:
  assumes "read_input ops (arg_input a) = Inr data"
    and "load_graph data \<noteq> []" and "list_all mappable (load_graph data)"
    and "make_dir ops (arg_out_dir a) = None" and "\<And>path. make_parent ops path = None"
    and w: "\<And>path c. write_file ops path c = None"
  shows "\<exists>st. main repr rel_for ops a files0 = Inr (0, st)"
proof -
  from assms(3) obtain st' where
    "export_loop repr rel_for ops a 1 (load_graph data)
       \<lparr>st_files = files0, st_ids = [], st_stderr = []\<rparr> = Inr st'"
    using export_loop_ok [OF w] by blast
  with assms(1,2,4,5) w show ?thesis
    by (cases "arg_sitemap a") (simp_all add: main_def Let_def write_sitemap_def)
qed

lemma main_failure:
  assumes "read_input ops (arg_input a) = Inr data" and "\<not> list_all mappable (load_graph data)"
  shows "\<exists>err. main repr rel_for ops a files0 = Inl err"
proof -
  from assms(2) have ne: "load_graph data \<noteq> []" by auto
  from export_loop_fails [OF assms(2)] obtain err where
    "export_loop repr rel_for ops a 1 (load_graph data)
       \<lparr>st_files = files0, st_ids = [], st_stderr = []\<rparr> = Inl err"
    by blast
  with ne assms(1) show ?thesis
    by (cases "make_dir ops (arg_out_dir a)") (simp_all add: main_def Let_def)
qed

lemma main_write_failure:
  assumes "read_input ops (arg_input a) = Inr data"
    and "load_graph data \<noteq> []" and "list_all mappable (load_graph data)"
    and "make_dir ops (arg_out_dir a) = None"
    and w: "\<And>path c. write_file ops path c = Some err"
  shows "main repr rel_for ops a files0 = Inl err"
proof -
  from assms(2) obtain entry rest where r: "load_graph data = entry # rest"
    by (cases "load_graph data") auto
  with assms(3) have "mappable entry" by simp
  then obtain fp where "export_one repr rel_for a 1 entry = Inr fp"
    using export_one_ok by blast
  then have "export_loop repr rel_for ops a 1 (entry # rest)
       \<lparr>st_files = files0, st_ids = [], st_stderr = []\<rparr> = Inl err"
    by (cases fp) (simp add: write_project_def w)
  with r assms(1,4) show ?thesis by (simp add: main_def Let_def)
qed

lemma load_graph_other:
  assumes "\<forall>xs. data \<noteq> JArr xs" "\<forall>d xs. data = JObj d \<longrightarrow> get d ''@graph'' \<noteq> JArr xs"
  shows "load_graph data = []"
  using assms by (cases data) (auto simp: load_graph_def split: json.splits)

text \<open>
  Claim C9 promises exit code 0 for every non-empty catalogue. For the catalogue
  \<open>[{"url": 5}]\<close>, with a file system on which every operation succeeds, the catalogue
  yields one record, and the run does not return 0: \<open>"zenodo.org/record/" in url\<close> raises a
  TypeError in \<open>parse_zenodo_rec_id\<close>, before any file is written, and nothing catches it.
  Every other field of a record is read behind an \<open>isinstance\<close> test.
\<close>

theorem main_numeric_url_uncaught:
  "load_graph (JArr [JObj [(''url'', JInt 5)]]) = [JObj [(''url'', JInt 5)]] \<and>
   parse_zenodo_rec_id [(''url'', JInt 5)] = Inl TypeError \<and>
   main sample_repr sample_rel_for (sample_ops (JArr [JObj [(''url'', JInt 5)]])) sample_args
     no_files = Inl TypeError"
  by (simp add: load_graph_def main_def export_one_def output_filename_def sample_ops_def
        parse_zenodo_rec_id_def source_url_def get_def py_or_def py_in_def)

section \<open>Output file names\<close>

lemma export_loop_all:
  "export_loop repr rel_for ops a idx records st = Inr st' \<Longrightarrow>
     \<exists>fps. export_all repr rel_for a idx records = Inr fps \<and>
           st' = foldl (\<lambda>s (f, p). written a s f p) st fps"
proof (induction records arbitrary: idx st)
  case Nil
  then show ?case by simp
next
  case (Cons entry rest)
  from Cons.prems obtain f p st1 where fp: "export_one repr rel_for a idx entry = Inr (f, p)"
    and w: "write_project ops a st f p = Inr st1"
    and rest: "export_loop repr rel_for ops a (Suc idx) rest st1 = Inr st'"
    by (auto split: sum.splits)
  from w have "st1 = written a st f p"
    by (auto simp: write_project_def split: option.splits)
  with Cons.IH [OF rest] fp show ?case by auto
qed

lemma export_all_nth:
  "export_all repr rel_for a idx records = Inr fps \<Longrightarrow>
     length fps = length records \<and>
     (\<forall>k < length records. export_one repr rel_for a (idx + k) (records ! k) = Inr (fps ! k))"
proof (induction records arbitrary: idx fps)
  case Nil
  then show ?case by simp
next
  case (Cons entry rest)
  from Cons.prems obtain fp fps' where
    fp: "export_one repr rel_for a idx entry = Inr fp"
    and fps': "export_all repr rel_for a (Suc idx) rest = Inr fps'"
    and fps: "fps = fp # fps'"
    by (auto split: sum.splits)
  from Cons.IH [OF fps'] have l: "length fps' = length rest"
    and n: "\<And>k. k < length rest \<Longrightarrow>
          export_one repr rel_for a (Suc idx + k) (rest ! k) = Inr (fps' ! k)"
    by simp_all
  show ?case
  proof (intro conjI allI impI)
    show "length fps = length (entry # rest)" using l fps by simp
  next
    fix k assume "k < length (entry # rest)"
    then show "export_one repr rel_for a (idx + k) ((entry # rest) ! k) = Inr (fps ! k)"
      using fp fps n [of "k - 1"] by (cases k) simp_all
  qed
qed

lemma foldl_write_ids:
  "st_ids (foldl (\<lambda>s (f, p). written a s f p) st fps) =
     st_ids st @ concat (map (\<lambda>(f, p). case get p ''@id'' of
                                         JStr i \<Rightarrow> (if i \<noteq> [] then [i] else [])
                                       | _ \<Rightarrow> []) fps)"
  by (induction fps arbitrary: st) (simp_all add: written_def split: prod.splits)

lemma path_join_inject: "path_join d f = path_join d g \<longleftrightarrow> f = g"
  by (simp add: path_join_def)

lemma foldl_write_files_other:
  "\<forall>fp \<in> set fps. fst fp \<noteq> f \<Longrightarrow>
     st_files (foldl (\<lambda>s (f, p). written a s f p) st fps) (path_join (arg_out_dir a) f) =
     st_files st (path_join (arg_out_dir a) f)"
  by (induction fps arbitrary: st)
     (auto simp: written_def path_join_inject split: prod.splits)

lemma foldl_write_files_last:
  assumes "fps = before @ (f, p) # after" "\<forall>fp \<in> set after. fst fp \<noteq> f"
  shows "st_files (foldl (\<lambda>s (f, p). written a s f p) st fps) (path_join (arg_out_dir a) f) =
     Some (JsonFile p)"
proof -
  let ?W = "\<lambda>s (f, p). written a s f p"
  have "st_files (foldl ?W st fps) (path_join (arg_out_dir a) f) =
      st_files (foldl ?W (written a (foldl ?W st before) f p) after) (path_join (arg_out_dir a) f)"
    by (simp add: assms(1))
  also have "\<dots> = st_files (written a (foldl ?W st before) f p) (path_join (arg_out_dir a) f)"
    using assms(2) by (rule foldl_write_files_other)
  also have "\<dots> = Some (JsonFile p)" by (simp add: written_def)
  finally show ?thesis .
qed

lemma export_one_id:
  assumes "export_one repr rel_for a idx entry = Inr (f, p)" "arg_base_url a = Some b" "b \<noteq> []"
  shows "get p ''@id'' = JStr (id_url b (rel_for f))" and "id_url b (rel_for f) \<noteq> []"
proof -
  from assms(1) obtain e where "dataset_to_project e (arg_base_url a) (rel_for f) = Inr p"
    by (auto simp: export_one_def split: json.splits sum.splits)
  from dataset_to_project_id [OF this] assms(2,3)
  show "get p ''@id'' = JStr (id_url b (rel_for f))"
    by (simp add: get_def id_url_def str_truthy_def)
  show "id_url b (rel_for f) \<noteq> []" by (simp add: id_url_def)
qed

lemma export_all_ids:
  assumes "export_all repr rel_for a idx records = Inr fps" "arg_base_url a = Some b" "b \<noteq> []"
  shows "concat (map (\<lambda>(f, p). case get p ''@id'' of
                                  JStr i \<Rightarrow> (if i \<noteq> [] then [i] else [])
                                | _ \<Rightarrow> []) fps) =
         map (\<lambda>fp. id_url b (rel_for (fst fp))) fps"
  using assms(1)
proof (induction records arbitrary: idx fps)
  case Nil
  then show ?case by simp
next
  case (Cons entry rest)
  from Cons.prems obtain f p fps' where
    fp: "export_one repr rel_for a idx entry = Inr (f, p)"
    and fps': "export_all repr rel_for a (Suc idx) rest = Inr fps'"
    and fps: "fps = (f, p) # fps'"
    by (auto split: sum.splits)
  from export_one_id [OF fp assms(2,3)] Cons.IH [OF fps'] fps show ?case by simp
qed

lemma output_filename_named:
  assumes "parse_zenodo_rec_id e = Inr None" "truthy (get e ''name'')"
  shows "output_filename repr idx e = Inr (slugify (py_str repr (get e ''name'')) @ ''.json'')"
  using assms by (simp add: output_filename_def py_or_def)

lemma export_one_named:
  assumes "export_one repr rel_for a idx (JObj e) = Inr (f, p)"
    and "parse_zenodo_rec_id e = Inr None" "truthy (get e ''name'')"
  shows "f = slugify (py_str repr (get e ''name'')) @ ''.json''"
    and "dataset_to_project e (arg_base_url a) (rel_for f) = Inr p"
  using assms(1) output_filename_named [OF assms(2,3), of repr idx]
  by (auto simp: export_one_def split: sum.splits)

text \<open>
  Claim C10, as stated, covers every pair of records whose \<open>name\<close> fields slugify to the
  same text. Two records with the empty name do (both give \<open>record\<close>), but an empty name is
  passed over for \<open>record-{idx}\<close>, so the two get different file names.
\<close>

theorem output_filename_empty_name_counterexample:
  "slugify (py_str sample_repr (get [(''name'', JStr '''')] ''name'')) = ''record'' \<and>
   parse_zenodo_rec_id [(''name'', JStr '''')] = Inr None \<and>
   output_filename sample_repr 1 [(''name'', JStr '''')] = Inr ''record-1.json'' \<and>
   output_filename sample_repr 2 [(''name'', JStr '''')] = Inr ''record-2.json'' \<and>
   output_filename sample_repr 1 [(''name'', JStr '''')] \<noteq>
     output_filename sample_repr 2 [(''name'', JStr '''')]"
proof -
  have 1: "slugify (py_str sample_repr (get [(''name'', JStr '''')] ''name'')) = ''record''"
    by code_simp
  have 2: "parse_zenodo_rec_id [(''name'', JStr '''')] = Inr None"
    by code_simp
  have 3: "output_filename sample_repr 1 [(''name'', JStr '''')] = Inr ''record-1.json''"
    by code_simp
  have 4: "output_filename sample_repr 2 [(''name'', JStr '''')] = Inr ''record-2.json''"
    by code_simp
  from 1 2 3 4 show ?thesis by simp
qed

text \<open>
  Claim C10, amended. The mapping from records to file names is not injective. Two records
  of a catalogue whose \<open>name\<close> fields are non-empty and slugify to the same text \<open>s\<close>, and
  from which no record id is extractable, both get the file name \<open>s.json\<close>; after the loop
  the file of that name holds the project of the later record (when no record after it
  takes the name again), and with a base URL both records have their \<open>@id\<close> in the list for
  the sitemap, at their own positions.
\<close>

theorem export_loop_same_filename:
  assumes run: "export_loop repr rel_for ops a idx records st = Inr st'"
    and ij: "i < j" "j < length records"
    and e1: "records ! i = JObj e1" and e2: "records ! j = JObj e2"
    and n1: "truthy (get e1 ''name'')" and n2: "truthy (get e2 ''name'')"
    and s1: "slugify (py_str repr (get e1 ''name'')) = s"
    and s2: "slugify (py_str repr (get e2 ''name'')) = s"
    and r1: "parse_zenodo_rec_id e1 = Inr None" and r2: "parse_zenodo_rec_id e2 = Inr None"
    and later: "\<forall>k f p. j < k \<and> k < length records \<and>
                  export_one repr rel_for a (idx + k) (records ! k) = Inr (f, p) \<longrightarrow> f \<noteq> s @ ''.json''"
  shows "output_filename repr (idx + i) e1 = Inr (s @ ''.json'') \<and>
         output_filename repr (idx + j) e2 = Inr (s @ ''.json'') \<and>
         (\<exists>p2. dataset_to_project e2 (arg_base_url a) (rel_for (s @ ''.json'')) = Inr p2 \<and>
               st_files st' (path_join (arg_out_dir a) (s @ ''.json'')) = Some (JsonFile p2)) \<and>
         (\<forall>b. arg_base_url a = Some b \<and> b \<noteq> [] \<longrightarrow>
            (\<exists>ids. st_ids st' = st_ids st @ ids \<and> length ids = length records \<and>
                   ids ! i = id_url b (rel_for (s @ ''.json'')) \<and>
                   ids ! j = id_url b (rel_for (s @ ''.json'')))) \<and>
         (\<exists>x y. x \<noteq> y \<and> output_filename repr idx x = output_filename repr (Suc idx) y)"
proof -
  let ?f = "s @ ''.json''"
  have f1: "output_filename repr (idx + i) e1 = Inr ?f"
    using output_filename_named [OF r1 n1] s1 by simp
  have f2: "output_filename repr (idx + j) e2 = Inr ?f"
    using output_filename_named [OF r2 n2] s2 by simp
  from export_loop_all [OF run] obtain fps where
    all: "export_all repr rel_for a idx records = Inr fps"
    and st': "st' = foldl (\<lambda>s (f, p). written a s f p) st fps"
    by blast
  from export_all_nth [OF all] have len: "length fps = length records"
    and nth: "\<And>k. k < length records \<Longrightarrow>
        export_one repr rel_for a (idx + k) (records ! k) = Inr (fps ! k)"
    by simp_all
  from ij have i: "i < length records" by simp
  obtain g1 p1 where fp1: "fps ! i = (g1, p1)" by (cases "fps ! i")
  obtain g2 p2 where fp2: "fps ! j = (g2, p2)" by (cases "fps ! j")
  from nth [OF i] e1 fp1 have x1: "export_one repr rel_for a (idx + i) (JObj e1) = Inr (g1, p1)"
    by simp
  from nth [OF ij(2)] e2 fp2 have x2: "export_one repr rel_for a (idx + j) (JObj e2) = Inr (g2, p2)"
    by simp
  from export_one_named(1) [OF x1 r1 n1] s1 have g1: "g1 = ?f" by simp
  from export_one_named(1) [OF x2 r2 n2] s2 have g2: "g2 = ?f" by simp
  from export_one_named(2) [OF x2 r2 n2] g2
  have d2: "dataset_to_project e2 (arg_base_url a) (rel_for ?f) = Inr p2" by simp
  have split: "fps = take j fps @ (?f, p2) # drop (Suc j) fps"
    using id_take_nth_drop [of j fps] ij(2) len fp2 g2 by simp
  have "\<forall>fp \<in> set (drop (Suc j) fps). fst fp \<noteq> ?f"
  proof
    fix fp assume "fp \<in> set (drop (Suc j) fps)"
    then obtain m where m: "m < length (drop (Suc j) fps)" and fp: "fp = drop (Suc j) fps ! m"
      by (auto simp: in_set_conv_nth)
    let ?k = "Suc j + m"
    from m len have k: "j < ?k" "?k < length records" by simp_all
    from fp m have "fp = fps ! ?k" by simp
    with nth [OF k(2)] have "export_one repr rel_for a (idx + ?k) (records ! ?k) = Inr (fst fp, snd fp)"
      by simp
    with later k show "fst fp \<noteq> ?f" by blast
  qed
  with split have written: "st_files st' (path_join (arg_out_dir a) ?f) = Some (JsonFile p2)"
    unfolding st' by (rule foldl_write_files_last)
  have ids: "\<exists>ids. st_ids st' = st_ids st @ ids \<and> length ids = length records \<and>
                   ids ! i = id_url b (rel_for ?f) \<and> ids ! j = id_url b (rel_for ?f)"
    if b: "arg_base_url a = Some b" "b \<noteq> []" for b
  proof -
    let ?ids = "map (\<lambda>fp. id_url b (rel_for (fst fp))) fps"
    have "st_ids st' = st_ids st @ ?ids"
      unfolding st' foldl_write_ids using export_all_ids [OF all b] by simp
    moreover have "length ?ids = length records" using len by simp
    moreover have "?ids ! i = id_url b (rel_for ?f)" using i len fp1 g1 by simp
    moreover have "?ids ! j = id_url b (rel_for ?f)" using ij(2) len fp2 g2 by simp
    ultimately show ?thesis by blast
  qed
  have ninj: "\<exists>x y. x \<noteq> y \<and> output_filename repr idx x = output_filename repr (Suc idx) y"
  proof -
    let ?x = "[(''name'', JStr ''A b'')]" and ?y = "[(''name'', JStr ''a-b'')]"
    have px: "parse_zenodo_rec_id ?x = Inr None" and py: "parse_zenodo_rec_id ?y = Inr None"
      by code_simp+
    have tx: "truthy (get ?x ''name'')" and ty: "truthy (get ?y ''name'')"
      by (simp_all add: get_def)
    have sx: "slugify ''A b'' = ''a-b''" and sy: "slugify ''a-b'' = ''a-b''"
      by code_simp+
    have "output_filename repr idx ?x = Inr ''a-b.json''"
      using output_filename_named [OF px tx, of repr idx] sx by (simp add: get_def py_str_def)
    moreover have "output_filename repr (Suc idx) ?y = Inr ''a-b.json''"
      using output_filename_named [OF py ty, of repr "Suc idx"] sy by (simp add: get_def py_str_def)
    moreover have "?x \<noteq> ?y" by simp
    ultimately show ?thesis by metis
  qed
  from f1 f2 d2 written ids ninj show ?thesis by blast
qed


theorem export_loop_same_filename_witness:
  "[(''name'', JStr ''A b'')] \<noteq> [(''name'', JStr ''a-b'')] \<and>
   output_filename sample_repr 1 [(''name'', JStr ''A b'')] = Inr ''a-b.json'' \<and>
   output_filename sample_repr 2 [(''name'', JStr ''a-b'')] = Inr ''a-b.json'' \<and>
   (\<exists>st' p2. export_loop sample_repr sample_rel_for (sample_ops JNull) sample_args 1
                [JObj [(''name'', JStr ''A b'')], JObj [(''name'', JStr ''a-b'')]]
                \<lparr>st_files = no_files, st_ids = [], st_stderr = []\<rparr> = Inr st' \<and>
             dataset_to_project [(''name'', JStr ''a-b'')] (Some ''https://x.org/repo'') ''out/a-b.json'' = Inr p2 \<and>
             st_files st' ''out/a-b.json'' = Some (JsonFile p2) \<and>
             st_ids st' = [''https://x.org/repo/out/a-b.json'', ''https://x.org/repo/out/a-b.json''])"
proof -
  let ?e1 = "[(''name'', JStr ''A b'')]" and ?e2 = "[(''name'', JStr ''a-b'')]"
  let ?st = "\<lparr>st_files = no_files, st_ids = [], st_stderr = []\<rparr>"
  have m: "list_all mappable [JObj ?e1, JObj ?e2]"
    by (simp add: mappable_def source_url_def get_def py_or_def)
  have "write_file (sample_ops JNull) path c = None" for path c
    by (simp add: sample_ops_def)
  from export_loop_ok [OF this] m obtain st' where
    run: "export_loop sample_repr sample_rel_for (sample_ops JNull) sample_args 1
            [JObj ?e1, JObj ?e2] ?st = Inr st'"
    by blast
  have s1: "slugify (py_str sample_repr (get ?e1 ''name'')) = ''a-b''" by code_simp
  have s2: "slugify (py_str sample_repr (get ?e2 ''name'')) = ''a-b''" by code_simp
  have r1: "parse_zenodo_rec_id ?e1 = Inr None" by code_simp
  have r2: "parse_zenodo_rec_id ?e2 = Inr None" by code_simp
  have n1: "truthy (get ?e1 ''name'')" and n2: "truthy (get ?e2 ''name'')"
    by (simp_all add: get_def)
  have l: "\<forall>k f p. 1 < k \<and> k < length [JObj ?e1, JObj ?e2] \<and>
      export_one sample_repr sample_rel_for sample_args (1 + k) ([JObj ?e1, JObj ?e2] ! k) = Inr (f, p)
        \<longrightarrow> f \<noteq> ''a-b'' @ ''.json''"
    by auto
  note t = export_loop_same_filename [where i = 0 and j = 1 and s = "''a-b''",
      OF run _ _ _ _ n1 n2 s1 s2 r1 r2 l]
  from t have f1: "output_filename sample_repr 1 ?e1 = Inr ''a-b.json''"
    and f2: "output_filename sample_repr 2 ?e2 = Inr ''a-b.json''"
    by (simp_all add: numeral_2_eq_2)
  from t obtain p2 where
    p2: "dataset_to_project ?e2 (Some ''https://x.org/repo'') ''out/a-b.json'' = Inr p2"
    and w: "st_files st' ''out/a-b.json'' = Some (JsonFile p2)"
    by (auto simp: sample_args_def sample_rel_for_def path_join_def)
  from t obtain ids where "st_ids st' = ids" "length ids = 2"
    "ids ! 0 = ''https://x.org/repo/out/a-b.json''" "ids ! 1 = ''https://x.org/repo/out/a-b.json''"
    by (auto simp: sample_args_def sample_rel_for_def id_url_def rstrip_chars_def lstrip_chars_def)
  then have i: "st_ids st' = [''https://x.org/repo/out/a-b.json'', ''https://x.org/repo/out/a-b.json'']"
    by (cases ids; cases "tl ids") auto
  from run p2 w i f1 f2 show ?thesis by auto
qed

section \<open>Record lister\<close>

lemma page_loop_step:
  "page_loop f mp (Suc n) (hits_through f n) =
     (if stops_at f mp (Suc n) then Some (page_result f (Suc n))
      else page_loop f mp (Suc (Suc n)) (hits_through f (Suc n)))"
  by (subst page_loop.simps)
     (simp add: stops_at_def page_result_def hits_after_def Let_def split: sum.splits)

lemma page_loop_stops:
  "stops_at f mp (Suc (n + k)) \<Longrightarrow> \<forall>m. n \<le> m \<and> m < n + k \<longrightarrow> \<not> stops_at f mp (Suc m) \<Longrightarrow>
     page_loop f mp (Suc n) (hits_through f n) = Some (page_result f (Suc (n + k)))"
proof (induction k arbitrary: n)
  case 0
  then show ?case by (simp add: page_loop_step)
next
  case (Suc k)
  from Suc.prems(2) have now: "\<not> stops_at f mp (Suc n)" by simp
  from Suc.prems(1) have a: "stops_at f mp (Suc (Suc n + k))" by simp
  from Suc.prems(2) have b: "\<forall>m. Suc n \<le> m \<and> m < Suc n + k \<longrightarrow> \<not> stops_at f mp (Suc m)" by simp
  from Suc.IH [OF a b] now show ?case by (simp add: page_loop_step)
qed

lemma page_loop_returns:
  assumes "page_loop f mp page acc = Some r"
  shows "page = Suc n \<Longrightarrow> acc = hits_through f n \<Longrightarrow> \<exists>k. stops_at f mp (Suc (n + k))"
  using assms
proof (induction arbitrary: n rule: page_loop.raw_induct)
  case (1 loop f mp page acc r)
  note eqs = \<open>page = Suc n\<close> \<open>acc = hits_through f n\<close>
  show ?case
  proof (cases "stops_at f mp (Suc n)")
    case True
    then have "stops_at f mp (Suc (n + 0))" by simp
    then show ?thesis by blast
  next
    case False
    with "1.hyps" have "loop f mp (Suc (Suc n)) (hits_through f (Suc n)) = Some r"
      unfolding eqs
      by (auto simp: stops_at_def hits_after_def Let_def split: sum.splits if_splits)
    moreover from False "1.prems" have "page_loop f mp (Suc (Suc n)) (hits_through f (Suc n)) = Some r"
      by (simp add: page_loop_step)
    ultimately obtain k where "stops_at f mp (Suc (Suc n + k))"
      using "1.IH" [of f mp "Suc (Suc n)" "hits_through f (Suc n)" r "Suc n"] by blast
    then have "stops_at f mp (Suc (n + Suc k))" by simp
    then show ?thesis by blast
  qed
qed (rule assms)

lemma page_loop_terminates_iff:
  "page_loop f mp 1 [] \<noteq> None \<longleftrightarrow> (\<exists>n. stops_at f mp (Suc n))"
proof
  assume "page_loop f mp 1 [] \<noteq> None"
  then obtain r where "page_loop f mp 1 [] = Some r" by blast
  from page_loop_returns [OF this, of 0] show "\<exists>n. stops_at f mp (Suc n)" by simp
next
  assume "\<exists>n. stops_at f mp (Suc n)"
  then obtain n where n: "stops_at f mp (Suc n)" by blast
  define k where "k = (LEAST n. stops_at f mp (Suc n))"
  have k: "stops_at f mp (Suc k)" unfolding k_def using n by (rule LeastI)
  have "\<forall>m. 0 \<le> m \<and> m < 0 + k \<longrightarrow> \<not> stops_at f mp (Suc m)"
    unfolding k_def using not_less_Least by auto
  with page_loop_stops [of f mp 0 k] k have "page_loop f mp (Suc 0) (hits_through f 0) = Some (page_result f (Suc k))"
    by simp
  then show "page_loop f mp 1 [] \<noteq> None" by simp
qed

lemma hits_through_idless: "hits_through (idless_endpoint community page_size) n = []"
  by (induction n) (simp_all add: hits_after_def idless_endpoint_def get_def)

text \<open>
  Claim C6, as stated, promises that the page loop terminates for every sequence of pages.
  For an endpoint whose pages are never empty and whose hits carry no id, with no page
  limit, nothing is ever collected, no stop condition ever holds and the loop runs for ever.
\<close>

theorem list_community_records_idless_counterexample:
  "list_community_records idless_endpoint ''bioecoocean'' 25 None = None"
proof (rule ccontr)
  assume "list_community_records idless_endpoint ''bioecoocean'' 25 None \<noteq> None"
  then obtain n where "stops_at (idless_endpoint ''bioecoocean'' 25) None (Suc n)"
    unfolding list_community_records_def page_loop_terminates_iff by blast
  then show False
    unfolding stops_at_def hits_through_idless by (simp add: idless_endpoint_def)
qed

text \<open>
  Claim C6, amended. The page loop terminates if and only if some page is one at which it
  stops: the request fails, or the page returns zero hits, or the configured page limit is
  reached, or the count of collected hits (those with a non-null id) reaches the reported
  total. It ends at the first such page, with the hits collected up to and including that
  page, and it always terminates when a page limit is configured.
\<close>

theorem list_community_records_terminates:
  "(list_community_records ep community page_size max_pages \<noteq> None \<longleftrightarrow>
      (\<exists>n. stops_at (ep community page_size) max_pages (Suc n))) \<and>
   (stops_at (ep community page_size) max_pages (Suc n) \<and>
    (\<forall>m < n. \<not> stops_at (ep community page_size) max_pages (Suc m)) \<longrightarrow>
      list_community_records ep community page_size max_pages =
        Some (page_result (ep community page_size) (Suc n))) \<and>
   (max_pages = Some limit \<longrightarrow>
      list_community_records ep community page_size max_pages \<noteq> None)"
proof -
  let ?f = "ep community page_size"
  have 1: "list_community_records ep community page_size max_pages \<noteq> None \<longleftrightarrow>
      (\<exists>n. stops_at ?f max_pages (Suc n))"
    unfolding list_community_records_def by (rule page_loop_terminates_iff)
  have 2: "stops_at ?f max_pages (Suc n) \<and> (\<forall>m < n. \<not> stops_at ?f max_pages (Suc m)) \<longrightarrow>
      list_community_records ep community page_size max_pages = Some (page_result ?f (Suc n))"
  proof
    assume a: "stops_at ?f max_pages (Suc n) \<and> (\<forall>m < n. \<not> stops_at ?f max_pages (Suc m))"
    then have "stops_at ?f max_pages (Suc (0 + n))"
      and "\<forall>m. 0 \<le> m \<and> m < 0 + n \<longrightarrow> \<not> stops_at ?f max_pages (Suc m)"
      by simp_all
    then have "page_loop ?f max_pages (Suc 0) (hits_through ?f 0) = Some (page_result ?f (Suc (0 + n)))"
      by (rule page_loop_stops)
    then show "list_community_records ep community page_size max_pages = Some (page_result ?f (Suc n))"
      by (simp add: list_community_records_def)
  qed
  have 3: "max_pages = Some limit \<longrightarrow>
      list_community_records ep community page_size max_pages \<noteq> None"
  proof
    assume "max_pages = Some limit"
    then have "stops_at ?f max_pages (Suc (nat limit))"
      by (simp add: stops_at_def split: sum.splits)
    with 1 show "list_community_records ep community page_size max_pages \<noteq> None" by blast
  qed
  from 1 2 3 show ?thesis by (intro conjI)
qed

theorem list_community_records_terminates_witness:
  "stops_at (sample_endpoint ''bioecoocean'' 25) None (Suc (Suc 0)) \<and>
   \<not> stops_at (sample_endpoint ''bioecoocean'' 25) None (Suc 0) \<and>
   list_community_records sample_endpoint ''bioecoocean'' 25 None =
     Some (Inr [[(''id'', JInt 1), (''metadata'', JObj [])],
                [(''id'', JInt 2), (''metadata'', JObj [])],
                [(''id'', JInt 3), (''metadata'', JObj [(''title'', JStr ''t'')])]]) \<and>
   list_community_records sample_endpoint ''bioecoocean'' 25 (Some 1) \<noteq> None"
proof -
  have a: "stops_at (sample_endpoint ''bioecoocean'' 25) None (Suc (Suc 0))" by code_simp
  have b: "\<not> stops_at (sample_endpoint ''bioecoocean'' 25) None (Suc 0)" by code_simp
  then have b': "\<forall>m < Suc 0. \<not> stops_at (sample_endpoint ''bioecoocean'' 25) None (Suc m)" by simp
  have r: "page_result (sample_endpoint ''bioecoocean'' 25) (Suc (Suc 0)) =
     Inr [[(''id'', JInt 1), (''metadata'', JObj [])],
          [(''id'', JInt 2), (''metadata'', JObj [])],
          [(''id'', JInt 3), (''metadata'', JObj [(''title'', JStr ''t'')])]]"
    by code_simp
  from list_community_records_terminates [of sample_endpoint "''bioecoocean''" 25 None "Suc 0" 0] a b' r
  have c: "list_community_records sample_endpoint ''bioecoocean'' 25 None =
     Some (Inr [[(''id'', JInt 1), (''metadata'', JObj [])],
                [(''id'', JInt 2), (''metadata'', JObj [])],
                [(''id'', JInt 3), (''metadata'', JObj [(''title'', JStr ''t'')])]])"
    by simp
  from list_community_records_terminates [of sample_endpoint "''bioecoocean''" 25 "Some 1" 0 1]
  have "Some (1::int) = Some 1 \<longrightarrow>
      list_community_records sample_endpoint ''bioecoocean'' 25 (Some 1) \<noteq> None"
    by (elim conjE)
  then have d: "list_community_records sample_endpoint ''bioecoocean'' 25 (Some 1) \<noteq> None"
    by blast
  from a b c d show ?thesis by (intro conjI)
qed

section \<open>Catalogue records and their urls\<close>

lemma map_of_copy_if_truthy:
  "k' \<noteq> k \<Longrightarrow> map_of (copy_if_truthy stub k v) k' = map_of stub k'"
  by (simp add: copy_if_truthy_def map_of_dict_set)

lemma stub_fields:
  assumes "metadata_to_schema_stub repr rec_id metadata = Inr stub"
  shows "map_of stub ''url'' = Some (JStr (''https://zenodo.org/record/'' @ py_str repr rec_id))"
    and "map_of stub ''@id'' = Some (JStr (''https://zenodo.org/record/'' @ py_str repr rec_id))"
proof -
  from assms obtain m where m: "metadata = JObj m"
    by (cases metadata) (simp_all add: metadata_to_schema_stub_def)
  from assms m obtain people where p: "creators_field (get m ''creators'') = Inr people"
    by (cases "creators_field (get m ''creators'')")
       (simp_all add: metadata_to_schema_stub_def Let_def)
  define stub2 where "stub2 =
     copy_if_truthy
       (copy_if_truthy
          [(''@context'', JStr ''https://schema.org/''),
           (''@type'', JStr ''CreativeWork''),
           (''@id'', JStr (''https://zenodo.org/record/'' @ py_str repr rec_id)),
           (''name'', py_or (get m ''title'') (JStr (''Zenodo record '' @ py_str repr rec_id))),
           (''identifier'', JStr (if truthy (get m ''doi'') then ''https://doi.org/'' @ py_str repr (get m ''doi'')
                                   else ''https://zenodo.org/record/'' @ py_str repr rec_id)),
           (''url'', JStr (''https://zenodo.org/record/'' @ py_str repr rec_id))]
          ''description'' (get m ''description''))
       ''datePublished'' (get m ''publication_date'')"
  define stub3 where "stub3 = (case people of Some ps \<Rightarrow> dict_set stub2 ''creator'' (JArr ps) | None \<Rightarrow> stub2)"
  from assms have s: "stub = copy_if_truthy (copy_if_truthy stub3 ''keywords'' (get m ''keywords''))
      ''license'' (get m ''license'')"
    by (cases people) (auto simp: metadata_to_schema_stub_def m p Let_def stub2_def stub3_def)
  have k2: "map_of stub2 ''url'' = Some (JStr (''https://zenodo.org/record/'' @ py_str repr rec_id))"
    "map_of stub2 ''@id'' = Some (JStr (''https://zenodo.org/record/'' @ py_str repr rec_id))"
    by (simp_all add: stub2_def map_of_copy_if_truthy)
  have k3: "map_of stub3 ''url'' = map_of stub2 ''url''" "map_of stub3 ''@id'' = map_of stub2 ''@id''"
    by (cases people; simp add: stub3_def map_of_dict_set)+
  show "map_of stub ''url'' = Some (JStr (''https://zenodo.org/record/'' @ py_str repr rec_id))"
    by (simp add: s map_of_copy_if_truthy k3 k2)
  show "map_of stub ''@id'' = Some (JStr (''https://zenodo.org/record/'' @ py_str repr rec_id))"
    by (simp add: s map_of_copy_if_truthy k3 k2)
qed

lemma stub_total:
  assumes "creators_field (get m ''creators'') = Inr people"
  shows "\<exists>stub. metadata_to_schema_stub repr rec_id (JObj m) = Inr stub"
  using assms by (simp add: metadata_to_schema_stub_def Let_def)

lemma map_of_if_dict_set:
  "k' \<noteq> k \<Longrightarrow> map_of (if c then dict_set d k v else d) k' = map_of d k'"
  by (simp add: map_of_dict_set)

lemma dataset_fields:
  assumes "item_to_dataset parse_date item = Inr d"
  shows "map_of d ''@id'' = None"
    and "map_of d ''url'' = Some (JStr (if item_link item \<noteq> [] then item_link item else item_eml item))"
proof -
  from assms obtain desc_text where dt: "desc_el item = Some desc_text"
    by (cases "desc_el item") (simp_all add: item_to_dataset_def Let_def)
  define link where "link = item_link item"
  define identifier_val where "identifier_val =
     (case el_text (eml_el item) of
        Some t \<Rightarrow> Some (py_strip t)
      | None \<Rightarrow> (if link \<noteq> [] then Some link else None))"
  define url where "url = (if link \<noteq> [] then link else (case identifier_val of Some v \<Rightarrow> v | None \<Rightarrow> []))"
  define dataset0 where "dataset0 =
     [(''@context'', JStr ''https://schema.org/''),
      (''@type'', JStr ''Dataset''),
      (''name'', JStr (if (case el_text (title_el item) of Some t \<Rightarrow> py_strip t | None \<Rightarrow> []) \<noteq> []
                       then (case el_text (title_el item) of Some t \<Rightarrow> py_strip t | None \<Rightarrow> [])
                       else ''OBIS IPT resource'')),
      (''description'', JStr (strip_html (case desc_text of Some t \<Rightarrow> t | None \<Rightarrow> []))),
      (''url'', JStr url)]"
  define dataset1 where "dataset1 =
     (case identifier_val of
        Some v \<Rightarrow>
          (if v \<noteq> [] then
             dict_set dataset0 ''identifier''
               (JObj [(''@type'', JStr ''PropertyValue''),
                      (''description'', JStr ''OBIS IPT resource''),
                      (''propertyID'', JStr ''url''),
                      (''url'', JStr v),
                      (''value'', JStr v)])
           else dataset0)
      | None \<Rightarrow> dataset0)"
  have k0: "map_of dataset0 ''@id'' = None" "map_of dataset0 ''url'' = Some (JStr url)"
    by (simp_all add: dataset0_def)
  have k1: "map_of dataset1 ''@id'' = None" "map_of dataset1 ''url'' = Some (JStr url)"
    by (cases identifier_val; simp add: dataset1_def k0 map_of_dict_set)+
  define dataset2 where "dataset2 =
     (if (case el_text (pub_el item) of
            Some t \<Rightarrow> (case parse_date (py_strip t) of Some d \<Rightarrow> d | None \<Rightarrow> py_strip t)
          | None \<Rightarrow> []) \<noteq> []
      then dict_set dataset1 ''datePublished''
             (JStr (case el_text (pub_el item) of
                      Some t \<Rightarrow> (case parse_date (py_strip t) of Some d \<Rightarrow> d | None \<Rightarrow> py_strip t)
                    | None \<Rightarrow> []))
      else dataset1)"
  have k2: "map_of dataset2 ''@id'' = None" "map_of dataset2 ''url'' = Some (JStr url)"
    by (simp_all add: dataset2_def k1 map_of_dict_set)
  have "\<exists>c v. item_to_dataset parse_date item = Inr (if c then dict_set dataset2 ''distribution'' v else dataset2)"
    unfolding item_to_dataset_def dt Let_def option.case
      dataset2_def dataset1_def dataset0_def url_def identifier_val_def link_def item_link_def
    by blast
  with assms obtain c v where
    d: "d = (if c then dict_set dataset2 ''distribution'' v else dataset2)"
    by auto
  have u: "url = (if item_link item \<noteq> [] then item_link item else item_eml item)"
    by (cases "el_text (eml_el item)")
       (simp_all add: url_def identifier_val_def link_def item_eml_def)
  show "map_of d ''@id'' = None"
    by (simp add: d map_of_dict_set k2)
  show "map_of d ''url'' = Some (JStr (if item_link item \<noteq> [] then item_link item else item_eml item))"
    by (simp add: d map_of_dict_set k2 u)
qed

lemma dataset_total:
  assumes "desc_el item = Some desc_text"
  shows "\<exists>d. item_to_dataset parse_date item = Inr d"
  using assms by (simp add: item_to_dataset_def Let_def)

lemma fetch_record_jsonld_response:
  assumes "http rec_id = Inr r"
  shows "fetch_record_jsonld http rec_id =
           Inr (if resp_status r = 200 then (case resp_json r of Some v \<Rightarrow> v | None \<Rightarrow> JNull)
                else JNull)"
  using assms by (simp add: fetch_record_jsonld_def Let_def split: option.splits)

lemma fetch_record_jsonld_raises:
  "http rec_id = Inl err \<Longrightarrow> fetch_record_jsonld http rec_id = Inl err"
  by (simp add: fetch_record_jsonld_def)

lemma catalogue_entry_kept:
  assumes "map_of hit ''id'' = Some rec_id" "fetch_record_jsonld http rec_id = Inr (JObj ld)"
    and "truthy (get ld ''@type'')"
  shows "catalogue_entry http repr hit = Inr (JObj ld)"
  using assms by (simp add: catalogue_entry_def Let_def)

lemma catalogue_entry_stub:
  assumes "map_of hit ''id'' = Some rec_id"
    and "fetch_record_jsonld http rec_id = Inr JNull \<or>
         (\<exists>ld. fetch_record_jsonld http rec_id = Inr (JObj ld) \<and> \<not> truthy (get ld ''@type''))"
  shows "catalogue_entry http repr hit =
           (case metadata_to_schema_stub repr rec_id (get_default hit ''metadata'' (JObj [])) of
              Inl err \<Rightarrow> Inl err
            | Inr stub \<Rightarrow> Inr (JObj stub))"
  using assms by (auto simp: catalogue_entry_def Let_def)

lemma catalogue_entry_not_object:
  assumes "map_of hit ''id'' = Some rec_id" "fetch_record_jsonld http rec_id = Inr ld"
    and "ld \<noteq> JNull" "\<And>d. ld \<noteq> JObj d"
  shows "catalogue_entry http repr hit = Inl AttributeError"
proof (cases ld)
  case JNull
  with assms(3) show ?thesis by simp
next
  case (JObj d)
  with assms(4) show ?thesis by blast
qed (simp_all add: catalogue_entry_def Let_def assms(1,2))

lemma catalogue_entry_request_fails:
  assumes "map_of hit ''id'' = Some rec_id" "fetch_record_jsonld http rec_id = Inl err"
  shows "catalogue_entry http repr hit = Inl err"
  using assms by (simp add: catalogue_entry_def Let_def)

text \<open>
  Claim C7, as stated, promises a non-empty \<open>url\<close> or \<open>@id\<close> for every record of the three
  producers, and names the Dataset of an RSS item with neither a link nor an EML element.
  That Dataset has the empty text as its \<open>url\<close> and no \<open>@id\<close>. An export that the builder keeps
  is kept as fetched, so one with a type and nothing else has no \<open>url\<close> and no \<open>@id\<close> either.
\<close>

theorem item_to_dataset_bare_counterexample:
  "link_el bare_item = None \<and> eml_el bare_item = None \<and>
   item_to_dataset no_date bare_item =
     Inr [(''@context'', JStr ''https://schema.org/''),
          (''@type'', JStr ''Dataset''),
          (''name'', JStr ''Cruise data''),
          (''description'', JStr ''Counts''),
          (''url'', JStr '''')] \<and>
   catalogue_entry bare_export sample_repr [(''id'', JInt 7), (''metadata'', JObj [])] =
     Inr (JObj [(''@type'', JStr ''Dataset'')])"
proof -
  have 1: "link_el bare_item = None" and 2: "eml_el bare_item = None"
    by (simp_all add: bare_item_def)
  have 3: "item_to_dataset no_date bare_item =
     Inr [(''@context'', JStr ''https://schema.org/''),
          (''@type'', JStr ''Dataset''),
          (''name'', JStr ''Cruise data''),
          (''description'', JStr ''Counts''),
          (''url'', JStr '''')]"
    by code_simp
  have 4: "catalogue_entry bare_export sample_repr [(''id'', JInt 7), (''metadata'', JObj [])] =
     Inr (JObj [(''@type'', JStr ''Dataset'')])"
    by code_simp
  from 1 2 3 4 show ?thesis by (intro conjI)
qed

text \<open>
  Claim C7, amended. A synthesized stub has the record page address, which is never empty,
  as its \<open>url\<close> and as its \<open>@id\<close>. A Dataset mapped from an RSS item has a \<open>url\<close> field and no
  \<open>@id\<close>; the \<open>url\<close> is the stripped link text, else the stripped EML text, and it is non-empty
  exactly when one of the two is; every item with a description element is mapped. An
  export that the builder keeps is the fetched object unchanged, with a non-empty \<open>@type\<close>.
\<close>

theorem catalogue_record_urls:
  "(metadata_to_schema_stub repr rec_id metadata = Inr stub \<longrightarrow>
      get stub ''url'' = JStr (''https://zenodo.org/record/'' @ py_str repr rec_id) \<and>
      get stub ''@id'' = JStr (''https://zenodo.org/record/'' @ py_str repr rec_id) \<and>
      ''https://zenodo.org/record/'' @ py_str repr rec_id \<noteq> []) \<and>
   (item_to_dataset parse_date item = Inr d \<longrightarrow>
      map_of d ''@id'' = None \<and>
      get d ''url'' = JStr (if item_link item \<noteq> [] then item_link item else item_eml item) \<and>
      (get d ''url'' \<noteq> JStr [] \<longleftrightarrow> item_link item \<noteq> [] \<or> item_eml item \<noteq> [])) \<and>
   (desc_el item = Some desc_text \<longrightarrow> (\<exists>ds. item_to_dataset parse_date item = Inr ds)) \<and>
   (map_of hit ''id'' = Some rec_id \<and> fetch_record_jsonld http rec_id = Inr (JObj ld) \<and>
    truthy (get ld ''@type'') \<longrightarrow>
      catalogue_entry http repr hit = Inr (JObj ld))"
proof -
  have 1: "metadata_to_schema_stub repr rec_id metadata = Inr stub \<longrightarrow>
      get stub ''url'' = JStr (''https://zenodo.org/record/'' @ py_str repr rec_id) \<and>
      get stub ''@id'' = JStr (''https://zenodo.org/record/'' @ py_str repr rec_id) \<and>
      ''https://zenodo.org/record/'' @ py_str repr rec_id \<noteq> []"
    using stub_fields [of repr rec_id metadata stub] by (simp add: get_def)
  have 2: "item_to_dataset parse_date item = Inr d \<longrightarrow>
      map_of d ''@id'' = None \<and>
      get d ''url'' = JStr (if item_link item \<noteq> [] then item_link item else item_eml item) \<and>
      (get d ''url'' \<noteq> JStr [] \<longleftrightarrow> item_link item \<noteq> [] \<or> item_eml item \<noteq> [])"
    using dataset_fields [of parse_date item d] by (simp add: get_def)
  have 3: "desc_el item = Some desc_text \<longrightarrow> (\<exists>ds. item_to_dataset parse_date item = Inr ds)"
    using dataset_total [of item desc_text parse_date] by blast
  have 4: "map_of hit ''id'' = Some rec_id \<and> fetch_record_jsonld http rec_id = Inr (JObj ld) \<and>
    truthy (get ld ''@type'') \<longrightarrow>
      catalogue_entry http repr hit = Inr (JObj ld)"
    using catalogue_entry_kept [of hit rec_id http ld repr] by blast
  from 1 2 3 4 show ?thesis by (intro conjI)
qed

theorem catalogue_record_urls_witness:
  "desc_el linked_item = Some (Some ''<p>Counts</p>'') \<and>
   item_link linked_item = ''https://ipt.obis.org/bioecoocean/resource?r=cruise'' \<and>
   (\<exists>ds. item_to_dataset no_date linked_item = Inr ds \<and>
         get ds ''url'' = JStr ''https://ipt.obis.org/bioecoocean/resource?r=cruise'' \<and>
         map_of ds ''@id'' = None) \<and>
   (\<exists>stub. metadata_to_schema_stub sample_repr (JInt 7) (JObj [(''title'', JStr ''T'')]) = Inr stub \<and>
           get stub ''url'' = JStr ''https://zenodo.org/record/7'' \<and>
           get stub ''@id'' = JStr ''https://zenodo.org/record/7'')"
proof -
  have a: "desc_el linked_item = Some (Some ''<p>Counts</p>'')"
    by (simp add: linked_item_def)
  have b: "item_link linked_item = ''https://ipt.obis.org/bioecoocean/resource?r=cruise''"
    by code_simp
  have c: "creators_field (get [(''title'', JStr ''T'')] ''creators'') = Inr None"
    by (simp add: creators_field_def get_def)
  from stub_total [OF c] obtain stub where
    s: "metadata_to_schema_stub sample_repr (JInt 7) (JObj [(''title'', JStr ''T'')]) = Inr stub"
    by blast
  have p: "py_str sample_repr (JInt 7) = ''7''" by code_simp
  note t = catalogue_record_urls [where item = linked_item and parse_date = no_date
      and desc_text = "Some ''<p>Counts</p>''" and repr = sample_repr and rec_id = "JInt 7"
      and metadata = "JObj [(''title'', JStr ''T'')]" and stub = stub]
  from t a obtain ds where ds: "item_to_dataset no_date linked_item = Inr ds" by blast
  note t' = catalogue_record_urls [where item = linked_item and parse_date = no_date and d = ds
      and repr = sample_repr and rec_id = "JInt 7"
      and metadata = "JObj [(''title'', JStr ''T'')]" and stub = stub]
  from t' ds b have d1: "get ds ''url'' = JStr ''https://ipt.obis.org/bioecoocean/resource?r=cruise''"
    and d2: "map_of ds ''@id'' = None"
    by simp_all
  from t' s p have s1: "get stub ''url'' = JStr ''https://zenodo.org/record/7''"
    and s2: "get stub ''@id'' = JStr ''https://zenodo.org/record/7''"
    by simp_all
  from a b ds d1 d2 s s1 s2 show ?thesis by blast
qed

section \<open>Catalogue builder\<close>

lemma catalogue_loop_entries:
  "catalogue_loop http repr catalogue hits =
     (case catalogue_entries http repr hits of
        Inl err \<Rightarrow> Inl err
      | Inr entries \<Rightarrow> Inr (catalogue @ entries))"
  by (induction hits arbitrary: catalogue) (auto split: sum.splits)

lemma catalogue_entries_nth:
  "catalogue_entries http repr hits = Inr entries \<Longrightarrow>
     length entries = length hits \<and>
     (\<forall>k < length hits. catalogue_entry http repr (hits ! k) = Inr (entries ! k))"
proof (induction hits arbitrary: entries)
  case Nil
  then show ?case by simp
next
  case (Cons hit hits)
  from Cons.prems obtain e es where
    e: "catalogue_entry http repr hit = Inr e"
    and es: "catalogue_entries http repr hits = Inr es"
    and entries: "entries = e # es"
    by (auto split: sum.splits)
  from Cons.IH [OF es] have l: "length es = length hits"
    and n: "\<And>k. k < length hits \<Longrightarrow> catalogue_entry http repr (hits ! k) = Inr (es ! k)"
    by simp_all
  show ?case
  proof (intro conjI allI impI)
    show "length entries = length (hit # hits)" using l entries by simp
  next
    fix k assume "k < length (hit # hits)"
    then show "catalogue_entry http repr ((hit # hits) ! k) = Inr (entries ! k)"
      using e entries n [of "k - 1"] by (cases k) simp_all
  qed
qed

lemma collect_hits_ids:
  "\<forall>h \<in> set acc. \<exists>rec_id. map_of h ''id'' = Some rec_id \<Longrightarrow>
     \<forall>h \<in> set (collect_hits acc hits). \<exists>rec_id. map_of h ''id'' = Some rec_id"
  by (induction acc hits rule: collect_hits.induct) (auto simp: Let_def)

lemma hits_through_ids:
  "\<forall>h \<in> set (hits_through f n). \<exists>rec_id. map_of h ''id'' = Some rec_id"
proof (induction n)
  case 0
  show ?case by simp
next
  case (Suc n)
  then show ?case
    by (cases "f (Suc n)") (simp_all add: hits_after_def collect_hits_ids)
qed

lemma page_loop_result:
  assumes "page_loop f mp 1 [] = Some r"
  shows "\<exists>n. r = page_result f (Suc n)"
proof -
  from assms have "\<exists>n. stops_at f mp (Suc n)"
    using page_loop_terminates_iff [of f mp] by simp
  then obtain n where n: "stops_at f mp (Suc n)" by blast
  define k where "k = (LEAST n. stops_at f mp (Suc n))"
  have "stops_at f mp (Suc k)" unfolding k_def using n by (rule LeastI)
  then have k: "stops_at f mp (Suc (0 + k))" by simp
  have "\<forall>m. 0 \<le> m \<and> m < 0 + k \<longrightarrow> \<not> stops_at f mp (Suc m)"
    unfolding k_def using not_less_Least by auto
  with k have "page_loop f mp (Suc 0) (hits_through f 0) = Some (page_result f (Suc (0 + k)))"
    by (rule page_loop_stops)
  with assms have "r = page_result f (Suc k)" by simp
  then show ?thesis by blast
qed

lemma listed_hits_ids:
  assumes "list_community_records ep community page_size max_pages = Some (Inr hits)"
  shows "\<forall>h \<in> set hits. \<exists>rec_id. map_of h ''id'' = Some rec_id"
proof -
  from assms obtain n where "Inr hits = page_result (ep community page_size) (Suc n)"
    unfolding list_community_records_def using page_loop_result by blast
  then have "hits = hits_through (ep community page_size) (Suc n)"
    by (auto simp: page_result_def split: sum.splits)
  then show ?thesis using hits_through_ids by blast
qed

lemma build_catalogue_eq:
  assumes "list_community_records ep community 25 max_pages = Some (Inr hits)"
  shows "build_catalogue ep http feed parse_date repr community max_pages =
     Some (case catalogue_entries http repr hits of
             Inl err \<Rightarrow> Inl err
           | Inr entries \<Rightarrow>
               (if community = DEFAULT_COMMUNITY then
                  (case harvest_obis_rss parse_date feed of
                     Inl err \<Rightarrow> Inl err
                   | Inr obis \<Rightarrow> Inr (entries @ obis))
                else Inr entries))"
  by (auto simp: build_catalogue_def assms catalogue_loop_entries split: sum.splits)

lemma build_catalogue_hits:
  assumes "build_catalogue ep http feed parse_date repr community max_pages = Some (Inr catalogue)"
  shows "\<exists>hits. list_community_records ep community 25 max_pages = Some (Inr hits)"
  using assms by (auto simp: build_catalogue_def split: option.splits sum.splits)

text \<open>
  A catalogue that is returned holds the per-record results in listing order, followed by
  the datasets of the RSS feed if and only if the community is the default community.
\<close>

lemma build_catalogue_returned:
  assumes b: "build_catalogue ep http feed parse_date repr community max_pages = Some (Inr catalogue)"
  shows "\<exists>hs entries.
         list_community_records ep community 25 max_pages = Some (Inr hs) \<and>
         length entries = length hs \<and>
         (\<forall>k < length hs. catalogue_entry http repr (hs ! k) = Inr (entries ! k)) \<and>
         (community \<noteq> DEFAULT_COMMUNITY \<longrightarrow> catalogue = entries) \<and>
         (community = DEFAULT_COMMUNITY \<longrightarrow>
            (\<exists>obis. harvest_obis_rss parse_date feed = Inr obis \<and> catalogue = entries @ obis))"
proof -
  from build_catalogue_hits [OF b] obtain hs where
    hs: "list_community_records ep community 25 max_pages = Some (Inr hs)" by blast
  note eq = build_catalogue_eq [OF hs, of http feed parse_date repr]
  from b eq obtain entries where en: "catalogue_entries http repr hs = Inr entries"
    by (cases "catalogue_entries http repr hs") simp_all
  from catalogue_entries_nth [OF en] have n: "length entries = length hs"
    "\<forall>k < length hs. catalogue_entry http repr (hs ! k) = Inr (entries ! k)"
    by simp_all
  from b eq en have o: "community \<noteq> DEFAULT_COMMUNITY \<longrightarrow> catalogue = entries"
    by auto
  from b eq en have d: "community = DEFAULT_COMMUNITY \<longrightarrow>
      (\<exists>obis. harvest_obis_rss parse_date feed = Inr obis \<and> catalogue = entries @ obis)"
    by (cases "harvest_obis_rss parse_date feed") auto
  from hs n o d show ?thesis by blast
qed

lemma build_catalogue_other_community:
  assumes "list_community_records ep community 25 max_pages = Some (Inr hits)"
    and "catalogue_entries http repr hits = Inr es" and "community \<noteq> DEFAULT_COMMUNITY"
  shows "build_catalogue ep http feed parse_date repr community max_pages = Some (Inr es)"
  using build_catalogue_eq [OF assms(1), of http feed parse_date repr] assms(2,3) by simp

lemma build_catalogue_default_community:
  assumes "list_community_records ep DEFAULT_COMMUNITY 25 max_pages = Some (Inr hits)"
    and "catalogue_entries http repr hits = Inr es" and "harvest_obis_rss parse_date feed = Inr ds"
  shows "build_catalogue ep http feed parse_date repr DEFAULT_COMMUNITY max_pages =
     Some (Inr (es @ ds))"
  using build_catalogue_eq [OF assms(1), of http feed parse_date repr] assms(2,3) by simp

lemma build_catalogue_entry_raises:
  assumes "list_community_records ep community 25 max_pages = Some (Inr hits)"
    and "catalogue_entries http repr hits = Inl err"
  shows "build_catalogue ep http feed parse_date repr community max_pages = Some (Inl err)"
  using build_catalogue_eq [OF assms(1), of http feed parse_date repr] assms(2) by simp

lemma build_catalogue_sample:
  "list_community_records sample_endpoint ''other'' 25 None =
     Some (Inr [[(''id'', JInt 1), (''metadata'', JObj [])],
                [(''id'', JInt 2), (''metadata'', JObj [])],
                [(''id'', JInt 3), (''metadata'', JObj [(''title'', JStr ''t'')])]]) \<and>
   (\<exists>stub2 stub3 dataset.
      metadata_to_schema_stub sample_repr (JInt 2) (JObj []) = Inr stub2 \<and>
      metadata_to_schema_stub sample_repr (JInt 3) (JObj [(''title'', JStr ''t'')]) = Inr stub3 \<and>
      item_to_dataset no_date linked_item = Inr dataset \<and>
      build_catalogue sample_endpoint sample_fetch (Feed (Some [linked_item])) no_date sample_repr
        ''other'' None =
        Some (Inr [JObj [(''@type'', JStr ''Dataset''), (''name'', JStr ''One'')],
                   JObj stub2, JObj stub3]) \<and>
      build_catalogue sample_endpoint sample_fetch (Feed (Some [linked_item])) no_date sample_repr
        ''bioecoocean'' None =
        Some (Inr [JObj [(''@type'', JStr ''Dataset''), (''name'', JStr ''One'')],
                   JObj stub2, JObj stub3, JObj dataset]))"
proof -
  let ?hits = "[[(''id'', JInt 1), (''metadata'', JObj [])],
                [(''id'', JInt 2), (''metadata'', JObj [])],
                [(''id'', JInt 3), (''metadata'', JObj [(''title'', JStr ''t'')])]]"
  let ?feed = "Feed (Some [linked_item])"
  have l1: "list_community_records sample_endpoint ''other'' 25 None = Some (Inr ?hits)"
    by code_simp
  have l2: "list_community_records sample_endpoint DEFAULT_COMMUNITY 25 None = Some (Inr ?hits)"
    by code_simp
  obtain stub2 where s2: "metadata_to_schema_stub sample_repr (JInt 2) (JObj []) = Inr stub2"
    using stub_total [of "[]" None sample_repr "JInt 2"]
    by (auto simp: creators_field_def get_def)
  obtain stub3 where
    s3: "metadata_to_schema_stub sample_repr (JInt 3) (JObj [(''title'', JStr ''t'')]) = Inr stub3"
    using stub_total [of "[(''title'', JStr ''t'')]" None sample_repr "JInt 3"]
    by (auto simp: creators_field_def get_def)
  obtain dataset where d: "item_to_dataset no_date linked_item = Inr dataset"
    using dataset_total [of linked_item _ no_date] by (auto simp: linked_item_def)
  let ?es = "[JObj [(''@type'', JStr ''Dataset''), (''name'', JStr ''One'')], JObj stub2, JObj stub3]"
  have f1: "fetch_record_jsonld sample_fetch (JInt 1) =
      Inr (JObj [(''@type'', JStr ''Dataset''), (''name'', JStr ''One'')])"
    and f2: "fetch_record_jsonld sample_fetch (JInt 2) = Inr (JObj [(''name'', JStr ''Two'')])"
    and f3: "fetch_record_jsonld sample_fetch (JInt 3) = Inr JNull"
    by (simp_all add: fetch_record_jsonld_response [of sample_fetch _ "json_response _"]
          fetch_record_jsonld_response [of sample_fetch _ not_found]
          sample_fetch_def json_response_def not_found_def)
  have e: "catalogue_entries sample_fetch sample_repr ?hits = Inr ?es"
    by (simp add: catalogue_entry_def f1 f2 f3 get_def get_default_def s2 s3)
  have h: "harvest_obis_rss no_date ?feed = Inr [JObj dataset]"
    by (simp add: harvest_obis_rss_def d)
  have b1: "build_catalogue sample_endpoint sample_fetch ?feed no_date sample_repr ''other'' None =
      Some (Inr ?es)"
    using l1 e by (rule build_catalogue_other_community) (simp add: DEFAULT_COMMUNITY_def)
  have b2: "build_catalogue sample_endpoint sample_fetch ?feed no_date sample_repr ''bioecoocean'' None =
      Some (Inr (?es @ [JObj dataset]))"
    using build_catalogue_default_community [OF l2 e h] by (simp add: DEFAULT_COMMUNITY_def)
  from l1 s2 s3 d b1 b2 show ?thesis by auto
qed

text \<open>
  Claim C3 promises, for every listed record, either the kept export or the synthesized
  stub. The builder does neither in three runs, each with one listed record, number 7. In
  the first the export endpoint answers with a JSON array: the fetcher, declared to return
  a dictionary or \<open>None\<close>, returns the array, and \<open>ld.get("@type")\<close> raises an AttributeError,
  although the stub for the record can be built. In the second the record is listed with
  \<open>"metadata": null\<close> and has no export: the stub synthesizer raises an AttributeError at
  \<open>metadata.get("doi")\<close>. In the third the request for the export fails, and the exception
  passes through the fetcher. In each run the builder returns no catalogue.
\<close>

theorem build_catalogue_uncaught:
  "list_community_records (one_record [(''id'', JInt 7)]) ''other'' 25 None =
     Some (Inr [[(''id'', JInt 7), (''metadata'', JObj [])]]) \<and>
   fetch_record_jsonld array_export (JInt 7) = Inr (JArr []) \<and>
   (\<exists>stub. metadata_to_schema_stub sample_repr (JInt 7) (JObj []) = Inr stub) \<and>
   build_catalogue (one_record [(''id'', JInt 7)]) array_export FetchFailed no_date sample_repr
     ''other'' None = Some (Inl AttributeError) \<and>
   list_community_records (one_record [(''id'', JInt 7), (''metadata'', JNull)]) ''other'' 25 None =
     Some (Inr [[(''id'', JInt 7), (''metadata'', JNull)]]) \<and>
   fetch_record_jsonld no_export (JInt 7) = Inr JNull \<and>
   metadata_to_schema_stub sample_repr (JInt 7) JNull = Inl AttributeError \<and>
   build_catalogue (one_record [(''id'', JInt 7), (''metadata'', JNull)]) no_export FetchFailed
     no_date sample_repr ''other'' None = Some (Inl AttributeError) \<and>
   fetch_record_jsonld failing_export (JInt 7) = Inl RequestException \<and>
   build_catalogue (one_record [(''id'', JInt 7)]) failing_export FetchFailed no_date sample_repr
     ''other'' None = Some (Inl RequestException)"
proof -
  let ?h = "[(''id'', JInt 7), (''metadata'', JObj [])]"
  let ?n = "[(''id'', JInt 7), (''metadata'', JNull)]"
  have l1: "list_community_records (one_record [(''id'', JInt 7)]) ''other'' 25 None =
      Some (Inr [?h])"
    by code_simp
  have l2: "list_community_records (one_record ?n) ''other'' 25 None = Some (Inr [?n])"
    by code_simp
  have f1: "fetch_record_jsonld array_export (JInt 7) = Inr (JArr [])"
    by (simp add: fetch_record_jsonld_response [of array_export _ "json_response (JArr [])"]
          array_export_def json_response_def)
  have f2: "fetch_record_jsonld no_export (JInt 7) = Inr JNull"
    by (simp add: fetch_record_jsonld_response [of no_export _ not_found]
          no_export_def not_found_def)
  have f3: "fetch_record_jsonld failing_export (JInt 7) = Inl RequestException"
    by (simp add: fetch_record_jsonld_raises failing_export_def)
  have s1: "\<exists>stub. metadata_to_schema_stub sample_repr (JInt 7) (JObj []) = Inr stub"
    using stub_total [of "[]" None sample_repr "JInt 7"]
    by (auto simp: creators_field_def get_def)
  have s2: "metadata_to_schema_stub sample_repr (JInt 7) JNull = Inl AttributeError"
    by (simp add: metadata_to_schema_stub_def)
  have e1: "catalogue_entries array_export sample_repr [?h] = Inl AttributeError"
    using catalogue_entry_not_object [of ?h "JInt 7" array_export "JArr []" sample_repr] f1
    by simp
  have e2: "catalogue_entries no_export sample_repr [?n] = Inl AttributeError"
    using catalogue_entry_stub [of ?n "JInt 7" no_export sample_repr] f2 s2
    by (simp add: get_default_def)
  have e3: "catalogue_entries failing_export sample_repr [?h] = Inl RequestException"
    using catalogue_entry_request_fails [of ?h "JInt 7" failing_export RequestException sample_repr] f3
    by simp
  note b1 = build_catalogue_entry_raises [OF l1 e1, of FetchFailed no_date]
  note b2 = build_catalogue_entry_raises [OF l2 e2, of FetchFailed no_date]
  note b3 = build_catalogue_entry_raises [OF l1 e3, of FetchFailed no_date]
  from l1 f1 s1 b1 l2 f2 s2 b2 f3 b3 show ?thesis by (intro conjI)
qed

end
